theory Spec2Isabelle
  imports Main "HOL-Library.Word"
begin

unbundle bit_operations_syntax

section \<open>Window dragging (src/shared/window-drag/main.ts)\<close>

text \<open>
  The module makes a frameless window draggable. On win32 it hooks two raw window
  messages of the window (\<open>makeWin32WindowFullyDraggable\<close>); elsewhere it keeps a
  registry of windows and repositions them on the IPC message
  \<^verbatim>\<open>set-window-draggable\<close> (\<open>WindowDrag.setup\<close>, \<open>WindowDrag.setWindowDraggable\<close>).

  Numbers are modelled as \<open>int\<close>: every number the win32 path computes is a sum of
  16-bit readings and integral window coordinates, far inside the range where a
  JavaScript number is exact. The IPC path copies its numbers without arithmetic.
\<close>

subsection \<open>Data\<close>

type_synonym window = nat
type_synonym buffer = "8 word list"

record IPoint =
  pt_x :: int
  pt_y :: int

record ISize =
  sz_width :: int
  sz_height :: int

text \<open>The argument of \<open>setBounds\<close> and the shape of \<open>initialPos\<close>: \<open>{x, y, height, width}\<close>.\<close>

record Rectangle =
  rc_x :: int
  rc_y :: int
  rc_height :: int
  rc_width :: int

text \<open>
  A function value that can stand in \<open>options.onDragEnd\<close>: a function of the caller
  (opaque; calling it is recorded in the trace), or a wrapper made by \<open>debounce\<close>,
  named by its index among the wrappers made so far.
\<close>

datatype callback = Caller nat | Debounced nat

text \<open>
  \<open>IDragOptions\<close>. \<open>getWindowSize\<close> is optional; when present it reads some state
  of the application, the environment \<open>'e\<close> current at the moment of the call.
  \<open>onDragEnd\<close> is a required member of the interface.
\<close>

record 'e IDragOptions =
  width :: int
  height :: int
  getWindowSize :: "('e \<Rightarrow> ISize) option"
  onDragEnd :: callback

datatype error = RangeError | TypeError

text \<open>What a handler does to the outside, in order.\<close>

datatype effect =
    is_SetBounds: SetBounds window Rectangle
  | is_Invoke: Invoke callback "IPoint option"
  | is_Uncaught: Uncaught error

definition WM_MOUSEMOVE :: nat where
  "WM_MOUSEMOVE = 0x0200"

definition WM_LBUTTONUP :: nat where
  "WM_LBUTTONUP = 0x0202"

definition MK_LBUTTON :: int where
  "MK_LBUTTON = 0x0001"

subsection \<open>Reading the message parameters\<close>

text \<open>
  \<open>Buffer.readInt16LE(offset)\<close> of the platform: it raises a RangeError unless both
  bytes exist, adds the first byte to 256 times the second and subtracts 65536 when bit
  15 of the sum is set.
\<close>

definition readInt16LE :: "buffer \<Rightarrow> nat \<Rightarrow> error + int" where
  "readInt16LE buf offset =
     (if offset + 1 < length buf then
        (let first = uint (buf ! offset);
             last = uint (buf ! (offset + 1));
             val = first + last * 2 ^ 8
         in Inr (if 2 ^ 15 \<le> val then val - 2 ^ 16 else val))
      else Inl RangeError)"

subsection \<open>Strategy A: the win32 message hooks\<close>

text \<open>
  The variables the two hooks close over: the parameters of
  \<open>makeWin32WindowFullyDraggable\<close> (\<open>options\<close> stands for the four members it
  destructures) and its locals \<open>initialPos\<close>, \<open>dragging\<close>, \<open>cachePosition\<close>.
  \<open>browserWindow\<close> is optional only so that the guard \<open>if (!browserWindow) return\<close>
  of the move hook is a branch of the model; registration always stores a window.
\<close>

record 'e Win32Drag =
  browserWindow :: "window option"
  options :: "'e IDragOptions"
  initialPos :: Rectangle
  dragging :: bool
  cachePosition :: "IPoint option"

definition makeWin32WindowFullyDraggable :: "window \<Rightarrow> 'e IDragOptions \<Rightarrow> 'e Win32Drag" where
  "makeWin32WindowFullyDraggable bw opts =
     \<lparr>browserWindow = Some bw,
      options = opts,
      initialPos = \<lparr>rc_x = 0, rc_y = 0, rc_height = height opts, rc_width = width opts\<rparr>,
      dragging = False,
      cachePosition = None\<rparr>"

text \<open>
  The hook of \<open>WM_LBUTTONUP\<close>. \<open>onDragEnd\<close> here is the caller's own function (on
  win32 nothing is wrapped): the call is recorded, and the function is taken to return
  without raising, so the hook does not raise.
\<close>

definition hook_WM_LBUTTONUP :: "'e Win32Drag \<Rightarrow> 'e Win32Drag \<times> effect list" where
  "hook_WM_LBUTTONUP cl =
     (cl\<lparr>dragging := False, cachePosition := None\<rparr>,
      if cachePosition cl \<noteq> None then [Invoke (onDragEnd (options cl)) (cachePosition cl)]
      else [])"

text \<open>
  The part of the move hook after the coordinates are read (from \<open>if (!dragging)\<close>
  on). \<open>wb\<close> is the rectangle the window occupies when the hook runs:
  \<open>getPosition()\<close> returns its \<open>x\<close> and \<open>y\<close>, and \<open>setBounds\<close> replaces it.
\<close>

definition move_pressed ::
  "window \<Rightarrow> 'e Win32Drag \<Rightarrow> 'e \<Rightarrow> Rectangle \<Rightarrow> int \<Rightarrow> int \<Rightarrow> 'e Win32Drag \<times> Rectangle \<times> effect list" where
  "move_pressed bw cl env wb x y =
     (if \<not> dragging cl then
        (let (initWidth, initHeight) =
               (case getWindowSize (options cl) of
                  None \<Rightarrow> (width (options cl), height (options cl))
                | Some f \<Rightarrow> (sz_width (f env), sz_height (f env)))
         in (cl\<lparr>dragging := True,
                initialPos := \<lparr>rc_x = x, rc_y = y, rc_height = initHeight, rc_width = initWidth\<rparr>\<rparr>,
             wb, []))
      else
        (let cp = \<lparr>pt_x = x + rc_x wb - rc_x (initialPos cl),
                   pt_y = y + rc_y wb - rc_y (initialPos cl)\<rparr>;
             nb = \<lparr>rc_x = pt_x cp, rc_y = pt_y cp,
                   rc_height = rc_height (initialPos cl), rc_width = rc_width (initialPos cl)\<rparr>
         in (cl\<lparr>cachePosition := Some cp\<rparr>, nb, [SetBounds bw nb])))"

text \<open>
  The hook of \<open>WM_MOUSEMOVE\<close>. The only places where it can raise, the three buffer reads,
  come before its first assignment, so a raise leaves every variable as it was.
\<close>

definition hook_WM_MOUSEMOVE ::
  "'e Win32Drag \<Rightarrow> 'e \<Rightarrow> Rectangle \<Rightarrow> buffer \<Rightarrow> buffer \<Rightarrow> error + 'e Win32Drag \<times> Rectangle \<times> effect list" where
  "hook_WM_MOUSEMOVE cl env wb wParam lParam =
     (case browserWindow cl of
        None \<Rightarrow> Inr (cl, wb, [])
      | Some bw \<Rightarrow>
          (case readInt16LE wParam 0 of
             Inl e \<Rightarrow> Inl e
           | Inr wParamNumber \<Rightarrow>
               if wParamNumber AND MK_LBUTTON = 0 then Inr (cl, wb, [])
               else
                 (case readInt16LE lParam 0 of
                    Inl e \<Rightarrow> Inl e
                  | Inr x \<Rightarrow>
                      (case readInt16LE lParam 2 of
                         Inl e \<Rightarrow> Inl e
                       | Inr y \<Rightarrow> Inr (move_pressed bw cl env wb x y)))))"

text \<open>
  A window message as the host delivers it: the environment at that moment, the message
  code and the two parameter buffers. Only the two hooked codes reach a hook; an
  exception that escapes a hook is recorded and the next message is delivered.
\<close>

type_synonym 'e wmsg = "'e \<times> nat \<times> buffer \<times> buffer"

definition deliver ::
  "'e Win32Drag \<Rightarrow> Rectangle \<Rightarrow> 'e wmsg \<Rightarrow> 'e Win32Drag \<times> Rectangle \<times> effect list" where
  "deliver cl wb m =
     (case m of (env, code, wParam, lParam) \<Rightarrow>
        if code = WM_LBUTTONUP then
          (case hook_WM_LBUTTONUP cl of (cl', es) \<Rightarrow> (cl', wb, es))
        else if code = WM_MOUSEMOVE then
          (case hook_WM_MOUSEMOVE cl env wb wParam lParam of
             Inl e \<Rightarrow> (cl, wb, [Uncaught e])
           | Inr r \<Rightarrow> r)
        else (cl, wb, []))"

fun deliver_all ::
  "'e Win32Drag \<Rightarrow> Rectangle \<Rightarrow> 'e wmsg list \<Rightarrow> 'e Win32Drag \<times> Rectangle \<times> effect list" where
  "deliver_all cl wb [] = (cl, wb, [])"
| "deliver_all cl wb (m # ms) =
     (case deliver cl wb m of (cl1, wb1, es1) \<Rightarrow>
        (case deliver_all cl1 wb1 ms of (cl2, wb2, es2) \<Rightarrow> (cl2, wb2, es1 @ es2)))"

subsection \<open>Strategy B: the registry and the IPC message\<close>

text \<open>
  Modelled from the spec: the helper \<open>debounce\<close> (imported from
  \<^verbatim>\<open>@/common/debounce\<close>) is not among the sources. The module calls it with a wait
  of 300 and \<open>{leading: false, trailing: true}\<close>; the spec describes that
  configuration: a call never runs the wrapped function at once, it (re)starts a timer
  of \<open>wait\<close> milliseconds and keeps the latest argument, and when the timer runs out
  the wrapped function is called once with that argument. There is no cancellation.
  A wrapper is the wrapped function, the wait, and the pending timer (the time it runs
  out and the argument kept), if any.
\<close>

record debounced =
  db_fn :: callback
  db_wait :: nat
  db_pending :: "(nat \<times> IPoint option) option"

text \<open>
  Modelled from the spec: \<open>debounce(fn, wait, {leading: false, trailing: true})\<close>
  returns a wrapper of \<open>fn\<close> with no timer pending.
\<close>

definition debounce :: "callback \<Rightarrow> nat \<Rightarrow> debounced" where
  "debounce f ms = \<lparr>db_fn = f, db_wait = ms, db_pending = None\<rparr>"

text \<open>
  The main process as far as the module touches it: the registry of the \<open>WindowDrag\<close>
  instance, which maps a window to an options object; the options objects themselves
  (\<open>setWindowDraggable\<close> assigns to a member of the object it is given, and the
  registry holds that same object, so the registry stores the object's index); the
  wrappers made by \<open>debounce\<close>; the time in milliseconds; and the hooks installed on
  win32.
\<close>

record 'e runtime =
  registeredWindows :: "window \<rightharpoonup> nat"
  objects :: "'e IDragOptions list"
  wrappers :: "debounced list"
  clock :: nat
  hooked :: "window \<rightharpoonup> 'e Win32Drag"

text \<open>
  Calling a function value. A function of the caller is opaque: the call is recorded, and
  the function is taken to return without raising. Modelled from the spec: calling a
  wrapper restarts its timer and keeps the argument (a wrapper index always names a
  wrapper made earlier; for any other index the list update changes nothing).
\<close>

fun call :: "callback \<Rightarrow> IPoint option \<Rightarrow> 'e runtime \<Rightarrow> 'e runtime \<times> effect list" where
  "call (Caller f) position rt = (rt, [Invoke (Caller f) position])"
| "call (Debounced c) position rt =
     (rt\<lparr>wrappers := (wrappers rt)
          [c := (wrappers rt ! c)\<lparr>db_pending := Some (clock rt + db_wait (wrappers rt ! c), position)\<rparr>]\<rparr>,
      [])"

text \<open>
  The listener of \<^verbatim>\<open>set-window-draggable\<close>. \<open>sender\<close> is what
  \<open>BrowserWindow.fromWebContents\<close> returns (nothing for contents that belong to no
  window); \<open>position\<close> is the payload, which may be null, and then reading
  \<open>position.x\<close> raises a TypeError, after \<open>getWindowSize\<close> and before \<open>setBounds\<close>.
\<close>

definition on_set_window_draggable ::
  "'e runtime \<Rightarrow> 'e \<Rightarrow> window option \<Rightarrow> IPoint option \<Rightarrow> error + 'e runtime \<times> effect list" where
  "on_set_window_draggable rt env sender position =
     (case sender of
        None \<Rightarrow> Inr (rt, [])
      | Some window \<Rightarrow>
          (case registeredWindows rt window of
             None \<Rightarrow> Inr (rt, [])
           | Some r \<Rightarrow>
               (let metadata = objects rt ! r;
                    (w, h) =
                      (case getWindowSize metadata of
                         None \<Rightarrow> (width metadata, height metadata)
                       | Some f \<Rightarrow> (sz_width (f env), sz_height (f env)))
                in case position of
                     None \<Rightarrow> Inl TypeError
                   | Some p \<Rightarrow>
                       (case call (onDragEnd metadata) position rt of
                          (rt', es) \<Rightarrow>
                            Inr (rt', SetBounds window
                                   \<lparr>rc_x = pt_x p, rc_y = pt_y p, rc_height = h, rc_width = w\<rparr> # es)))))"

text \<open>
  \<open>setWindowDraggable\<close>, with \<open>process.platform\<close> as a parameter and the options
  object given by its index \<open>r\<close> (the index of an existing object). Hooking a message
  of a window replaces the hook the window had for that message.
\<close>

definition setWindowDraggable :: "string \<Rightarrow> window \<Rightarrow> nat \<Rightarrow> 'e runtime \<Rightarrow> 'e runtime" where
  "setWindowDraggable platform window r rt =
     (if platform = ''win32'' then
        rt\<lparr>hooked := (hooked rt)(window \<mapsto> makeWin32WindowFullyDraggable window (objects rt ! r))\<rparr>
      else
        (let originalDragEnd = onDragEnd (objects rt ! r);
             c = length (wrappers rt)
         in rt\<lparr>wrappers := wrappers rt @ [debounce originalDragEnd 300],
               objects := (objects rt)[r := (objects rt ! r)\<lparr>onDragEnd := Debounced c\<rparr>],
               registeredWindows := (registeredWindows rt)(window \<mapsto> r)\<rparr>))"

text \<open>
  The listener of \<open>closed\<close> that \<open>setWindowDraggable\<close> attaches. Every window in the
  registry has one, and deleting a window that is not in the registry changes nothing,
  so the close notification of any window is this function.
\<close>

definition on_closed :: "window \<Rightarrow> 'e runtime \<Rightarrow> 'e runtime" where
  "on_closed window rt = rt\<lparr>registeredWindows := (registeredWindows rt)(window := None)\<rparr>"

text \<open>
  Modelled from the spec: the timer of wrapper \<open>c\<close> running out. Time advances one
  millisecond at a time; after each millisecond every wrapper whose timer has run out
  calls its wrapped function with the argument kept (wrappers in the order they were
  made).
\<close>

definition fire :: "nat \<Rightarrow> 'e runtime \<Rightarrow> 'e runtime \<times> effect list" where
  "fire c rt =
     (case db_pending (wrappers rt ! c) of
        None \<Rightarrow> (rt, [])
      | Some (due, position) \<Rightarrow>
          if due \<le> clock rt then
            call (db_fn (wrappers rt ! c)) position
              (rt\<lparr>wrappers := (wrappers rt)[c := (wrappers rt ! c)\<lparr>db_pending := None\<rparr>]\<rparr>)
          else (rt, []))"

fun fire_each :: "nat list \<Rightarrow> 'e runtime \<Rightarrow> 'e runtime \<times> effect list" where
  "fire_each [] rt = (rt, [])"
| "fire_each (c # cs) rt =
     (case fire c rt of (rt1, es1) \<Rightarrow>
        (case fire_each cs rt1 of (rt2, es2) \<Rightarrow> (rt2, es1 @ es2)))"

definition tick :: "'e runtime \<Rightarrow> 'e runtime \<times> effect list" where
  "tick rt = fire_each [0..<length (wrappers rt)] (rt\<lparr>clock := clock rt + 1\<rparr>)"

fun elapse :: "nat \<Rightarrow> 'e runtime \<Rightarrow> 'e runtime \<times> effect list" where
  "elapse 0 rt = (rt, [])"
| "elapse (Suc n) rt =
     (case tick rt of (rt1, es1) \<Rightarrow>
        (case elapse n rt1 of (rt2, es2) \<Rightarrow> (rt2, es1 @ es2)))"

text \<open>
  What happens in the main process, one event after the other: an IPC message, the close
  notification of a window, or time passing. An exception that escapes the IPC listener
  is recorded; the listener has assigned nothing when it raises.
\<close>

datatype 'e event =
    Message 'e "window option" "IPoint option"
  | Closed window
  | Wait nat

fun step :: "'e runtime \<Rightarrow> 'e event \<Rightarrow> 'e runtime \<times> effect list" where
  "step rt (Message env sender position) =
     (case on_set_window_draggable rt env sender position of
        Inl e \<Rightarrow> (rt, [Uncaught e])
      | Inr r \<Rightarrow> r)"
| "step rt (Closed window) = (on_closed window rt, [])"
| "step rt (Wait n) = elapse n rt"

fun run :: "'e runtime \<Rightarrow> 'e event list \<Rightarrow> 'e runtime \<times> effect list" where
  "run rt [] = (rt, [])"
| "run rt (ev # evs) =
     (case step rt ev of (rt1, es1) \<Rightarrow>
        (case run rt1 evs of (rt2, es2) \<Rightarrow> (rt2, es1 @ es2)))"

text \<open>The main process before anything is registered, holding the given options objects.\<close>

definition boot :: "'e IDragOptions list \<Rightarrow> 'e runtime" where
  "boot objs =
     \<lparr>registeredWindows = Map.empty, objects = objs, wrappers = [], clock = 0,
      hooked = Map.empty\<rparr>"

subsection \<open>Notions of the specification\<close>

text \<open>A signed 16-bit little-endian integer at a byte offset of a buffer.\<close>

definition int16le :: "buffer \<Rightarrow> nat \<Rightarrow> int" where
  "int16le buf offset = sint (word_cat (buf ! (offset + 1)) (buf ! offset) :: 16 word)"

text \<open>
  A qualifying move: a \<open>WM_MOUSEMOVE\<close> whose buffers hold the button word and the two
  coordinates, with the primary-button bit set. A release: a \<open>WM_LBUTTONUP\<close>.
\<close>

definition pressed_move :: "'e wmsg \<Rightarrow> bool" where
  "pressed_move m =
     (case m of (env, code, wParam, lParam) \<Rightarrow>
        code = WM_MOUSEMOVE \<and> 2 \<le> length wParam \<and> bit (int16le wParam 0) 0 \<and> 4 \<le> length lParam)"

definition is_release :: "'e wmsg \<Rightarrow> bool" where
  "is_release m = (case m of (env, code, wParam, lParam) \<Rightarrow> code = WM_LBUTTONUP)"

text \<open>The pointer coordinates a move carries.\<close>

definition pointer_x :: "'e wmsg \<Rightarrow> int" where
  "pointer_x m = (case m of (env, code, wParam, lParam) \<Rightarrow> int16le lParam 0)"

definition pointer_y :: "'e wmsg \<Rightarrow> int" where
  "pointer_y m = (case m of (env, code, wParam, lParam) \<Rightarrow> int16le lParam 2)"

text \<open>The number of qualifying moves since the last release (or since registration).\<close>

definition count_step :: "nat \<Rightarrow> 'e wmsg \<Rightarrow> nat" where
  "count_step n m = (if is_release m then 0 else if pressed_move m then Suc n else n)"

definition moves_since_release :: "'e wmsg list \<Rightarrow> nat" where
  "moves_since_release ms = foldl count_step 0 ms"

text \<open>The effective size: from \<open>getWindowSize()\<close> if provided, else the fallback.\<close>

definition effective_size :: "'e IDragOptions \<Rightarrow> 'e \<Rightarrow> ISize" where
  "effective_size opts env =
     (case getWindowSize opts of
        None \<Rightarrow> \<lparr>sz_width = width opts, sz_height = height opts\<rparr>
      | Some f \<Rightarrow> f env)"

text \<open>
  A burst of messages from one window: each item is the time that passes before the
  message, the environment in which it is handled, and the position it carries.
\<close>

fun burst :: "window \<Rightarrow> (nat \<times> 'e \<times> IPoint) list \<Rightarrow> 'e event list" where
  "burst w [] = []"
| "burst w ((gap, env, p) # rest) = Wait gap # Message env (Some w) (Some p) # burst w rest"

text \<open>No timer is pending.\<close>

definition quiet :: "'e runtime \<Rightarrow> bool" where
  "quiet rt = list_all (\<lambda>d. db_pending d = None) (wrappers rt)"

text \<open>Wrapper \<open>c\<close> exists and wraps the caller's function \<open>f\<close> with a wait of 300.\<close>

definition wraps :: "'e runtime \<Rightarrow> nat \<Rightarrow> nat \<Rightarrow> bool" where
  "wraps rt c f =
     (c < length (wrappers rt) \<and> db_fn (wrappers rt ! c) = Caller f
      \<and> db_wait (wrappers rt ! c) = 300)"

text \<open>No wrapper but \<open>c\<close> has a timer pending.\<close>

definition others_idle :: "'e runtime \<Rightarrow> nat \<Rightarrow> bool" where
  "others_idle rt c =
     (\<forall>c'<length (wrappers rt). c' \<noteq> c \<longrightarrow> db_pending (wrappers rt ! c') = None)"

text \<open>
  What can still happen about a window after its close notification: a message attributed
  to it (or to no window, which is what its destroyed contents resolve to), the
  notification once more, and time passing. The time that passes during such events.
\<close>

fun after_close :: "window \<Rightarrow> 'e event \<Rightarrow> bool" where
  "after_close w (Message env sender position) = (sender = Some w \<or> sender = None)"
| "after_close w (Closed w') = (w' = w)"
| "after_close w (Wait n) = True"

fun waited :: "'e event list \<Rightarrow> nat" where
  "waited [] = 0"
| "waited (Message env sender position # evs) = waited evs"
| "waited (Closed w # evs) = waited evs"
| "waited (Wait n # evs) = n + waited evs"

section \<open>Lemmas\<close>

subsection \<open>The buffer reads\<close>

lemma uint_bounds8: "0 \<le> uint (b::8 word)" "uint (b::8 word) < 256"
  using uint_lt2p[of b] by simp_all

lemma uint_cat16:
  "uint (word_cat (hi::8 word) (lo::8 word) :: 16 word) = uint lo + uint hi * 2 ^ 8"
proof -
  have "uint (word_cat hi lo :: 16 word) = take_bit 16 (concat_bit 8 (uint lo) (uint hi))"
    by (simp add: word_cat_eq' uint_word_of_int_eq)
  also have "concat_bit 8 (uint lo) (uint hi) = uint lo + uint hi * 2 ^ 8"
    using uint_bounds8[of lo] by (simp add: concat_bit_eq take_bit_int_eq_self push_bit_eq_mult)
  also have "take_bit 16 (uint lo + uint hi * 2 ^ 8) = uint lo + uint hi * 2 ^ 8"
    using uint_bounds8[of lo] uint_bounds8[of hi] by (intro take_bit_int_eq_self) simp_all
  finally show ?thesis .
qed

lemma sint16: "sint (w :: 16 word) = (if 2 ^ 15 \<le> uint w then uint w - 2 ^ 16 else uint w)"
proof -
  have b: "0 \<le> uint w" "uint w < 65536"
    using uint_lt2p[of w] by simp_all
  have s: "sint w = (uint w + 32768) mod 65536 - 32768"
    by (simp add: sint_uint signed_take_bit_eq_take_bit_shift take_bit_eq_mod)
  show ?thesis
  proof (cases "32768 \<le> uint w")
    case True
    have "uint w + 32768 = (uint w - 32768) + 65536"
      by arith
    then have "(uint w + 32768) mod 65536 = ((uint w - 32768) + 65536) mod 65536"
      by (rule arg_cong)
    also have "\<dots> = (uint w - 32768) mod 65536"
      by (simp only: mod_add_self2)
    also have "\<dots> = uint w - 32768"
      using True b by (intro mod_pos_pos_trivial) simp_all
    finally show ?thesis using True s by simp
  next
    case False
    then have "(uint w + 32768) mod 65536 = uint w + 32768"
      using b by (intro mod_pos_pos_trivial) simp_all
    then show ?thesis using False s by simp
  qed
qed

lemma and_MK_LBUTTON: "(k::int) AND MK_LBUTTON = 0 \<longleftrightarrow> \<not> bit k 0"
  by (simp add: MK_LBUTTON_def and_one_eq bit_0 even_iff_mod_2_eq_zero)

lemma readInt16LE_int16le:
  "offset + 1 < length buf \<Longrightarrow> readInt16LE buf offset = Inr (int16le buf offset)"
  by (simp add: readInt16LE_def int16le_def sint16 uint_cat16 Let_def)

lemma readInt16LE_short:
  "\<not> offset + 1 < length buf \<Longrightarrow> readInt16LE buf offset = Inl RangeError"
  by (simp add: readInt16LE_def)

lemma hook_move_decoded:
  assumes "browserWindow cl = Some bw" "2 \<le> length wParam" "4 \<le> length lParam"
  shows "hook_WM_MOUSEMOVE cl env wb wParam lParam =
           Inr (if bit (int16le wParam 0) 0
                then move_pressed bw cl env wb (int16le lParam 0) (int16le lParam 2)
                else (cl, wb, []))"
proof -
  have w: "readInt16LE wParam 0 = Inr (int16le wParam 0)"
    using assms(2) by (intro readInt16LE_int16le) simp
  have x: "readInt16LE lParam 0 = Inr (int16le lParam 0)"
    using assms(3) by (intro readInt16LE_int16le) simp
  have y: "readInt16LE lParam 2 = Inr (int16le lParam 2)"
    using assms(3) by (intro readInt16LE_int16le) simp
  show ?thesis
    by (simp add: hook_WM_MOUSEMOVE_def assms(1) w x y and_MK_LBUTTON)
qed

lemma hook_move_released:
  assumes "2 \<le> length wParam" "\<not> bit (int16le wParam 0) 0"
  shows "hook_WM_MOUSEMOVE cl env wb wParam lParam = Inr (cl, wb, [])"
proof -
  have w: "readInt16LE wParam 0 = Inr (int16le wParam 0)"
    using assms(1) by (intro readInt16LE_int16le) simp
  show ?thesis
    by (simp add: hook_WM_MOUSEMOVE_def w and_MK_LBUTTON assms(2) split: option.split)
qed

lemma hook_move_raises:
  assumes "hook_WM_MOUSEMOVE cl env wb wParam lParam = Inl e"
  shows "e = RangeError \<and> (length wParam < 2 \<or> length lParam < 4)"
proof -
  have a: "length buf < n + 2" if "readInt16LE buf n = Inl e'" for buf n e'
    using that by (auto simp: readInt16LE_def Let_def split: if_splits)
  have b: "e' = RangeError" if "readInt16LE buf n = Inl e'" for buf n e'
    using that by (auto simp: readInt16LE_def Let_def split: if_splits)
  from assms show ?thesis
    by (fastforce simp: hook_WM_MOUSEMOVE_def split: option.splits sum.splits if_splits dest: a b)
qed

lemma codes_differ: "WM_MOUSEMOVE \<noteq> WM_LBUTTONUP"
  by (simp add: WM_MOUSEMOVE_def WM_LBUTTONUP_def)

lemma deliver_release:
  "is_release m \<Longrightarrow>
   deliver cl wb m =
     (cl\<lparr>dragging := False, cachePosition := None\<rparr>, wb,
      if cachePosition cl \<noteq> None then [Invoke (onDragEnd (options cl)) (cachePosition cl)] else [])"
  by (cases m) (simp add: deliver_def is_release_def hook_WM_LBUTTONUP_def)

lemma deliver_pressed:
  "browserWindow cl = Some bw \<Longrightarrow> pressed_move m \<Longrightarrow>
   deliver cl wb m = move_pressed bw cl (fst m) wb (pointer_x m) (pointer_y m)"
  by (cases m)
    (simp add: deliver_def pressed_move_def pointer_x_def pointer_y_def codes_differ
      hook_move_decoded)

lemma deliver_other:
  assumes "\<not> is_release m" "\<not> pressed_move m"
  shows "\<exists>es. deliver cl wb m = (cl, wb, es) \<and> (es = [] \<or> es = [Uncaught RangeError])"
proof (cases m)
  case (fields env code wParam lParam)
  show ?thesis
  proof (cases "code = WM_MOUSEMOVE")
    case False
    with fields assms show ?thesis by (simp add: deliver_def is_release_def)
  next
    case True
    show ?thesis
    proof (cases "hook_WM_MOUSEMOVE cl env wb wParam lParam")
      case (Inl e)
      with hook_move_raises[OF Inl] True fields show ?thesis
        by (simp add: deliver_def codes_differ)
    next
      case (Inr r)
      show ?thesis
      proof (cases "2 \<le> length wParam")
        case False
        then have "readInt16LE wParam 0 = Inl RangeError"
          by (intro readInt16LE_short) simp
        with Inr show ?thesis
          by (auto simp: hook_WM_MOUSEMOVE_def deliver_def fields True codes_differ split: option.splits)
      next
        case w: True
        show ?thesis
        proof (cases "bit (int16le wParam 0) 0")
          case False
          with w fields True show ?thesis
            by (simp add: deliver_def codes_differ hook_move_released)
        next
          case b: True
          with w assms(2) fields True have "\<not> 4 \<le> length lParam"
            by (simp add: pressed_move_def)
          then have s: "readInt16LE lParam 2 = Inl RangeError"
            by (intro readInt16LE_short) simp
          have "readInt16LE wParam 0 = Inr (int16le wParam 0)"
            using w by (intro readInt16LE_int16le) simp
          with Inr s b show ?thesis
            by (auto simp: hook_WM_MOUSEMOVE_def deliver_def fields True codes_differ and_MK_LBUTTON
                split: option.splits sum.splits)
        qed
      qed
    qed
  qed
qed

lemma int16le_bytes:
  "int16le buf offset =
     (if 2 ^ 15 \<le> uint (buf ! offset) + uint (buf ! (offset + 1)) * 2 ^ 8
      then uint (buf ! offset) + uint (buf ! (offset + 1)) * 2 ^ 8 - 2 ^ 16
      else uint (buf ! offset) + uint (buf ! (offset + 1)) * 2 ^ 8)"
  by (simp only: int16le_def sint16 uint_cat16)

lemma bit0_int16le: "bit (int16le buf offset) 0 \<longleftrightarrow> bit (buf ! offset) 0"
  by (simp add: int16le_def bit_sint_iff bit_word_cat_iff)

lemma move_pressed_origin:
  "\<not> dragging cl \<Longrightarrow>
   move_pressed bw cl env wb x y =
     (cl\<lparr>dragging := True,
         initialPos := \<lparr>rc_x = x, rc_y = y,
                        rc_height = sz_height (effective_size (options cl) env),
                        rc_width = sz_width (effective_size (options cl) env)\<rparr>\<rparr>,
      wb, [])"
  by (simp add: move_pressed_def effective_size_def split: option.split)

lemma move_pressed_drag:
  "dragging cl \<Longrightarrow>
   move_pressed bw cl env wb x y =
     (cl\<lparr>cachePosition := Some \<lparr>pt_x = x + rc_x wb - rc_x (initialPos cl),
                                 pt_y = y + rc_y wb - rc_y (initialPos cl)\<rparr>\<rparr>,
      \<lparr>rc_x = x + rc_x wb - rc_x (initialPos cl), rc_y = y + rc_y wb - rc_y (initialPos cl),
       rc_height = rc_height (initialPos cl), rc_width = rc_width (initialPos cl)\<rparr>,
      [SetBounds bw
         \<lparr>rc_x = x + rc_x wb - rc_x (initialPos cl), rc_y = y + rc_y wb - rc_y (initialPos cl),
          rc_height = rc_height (initialPos cl), rc_width = rc_width (initialPos cl)\<rparr>])"
  by (simp add: move_pressed_def Let_def)

subsection \<open>Strategy A: sequences of messages\<close>

lemma deliver_cases:
  obtains (release) "is_release m"
    | (pressed) "\<not> is_release m" "pressed_move m"
    | (other) "\<not> is_release m" "\<not> pressed_move m"
  by blast

lemma deliver_keeps:
  assumes "deliver cl wb m = (cl', wb', es)"
  shows "browserWindow cl' = browserWindow cl \<and> options cl' = options cl"
proof (cases "browserWindow cl")
  case None
  with assms show ?thesis
    by (cases m)
      (auto simp: deliver_def hook_WM_LBUTTONUP_def hook_WM_MOUSEMOVE_def split: if_splits)
next
  case (Some bw)
  show ?thesis
  proof (cases m rule: deliver_cases)
    case release
    with assms show ?thesis by (auto simp: deliver_release)
  next
    case pressed
    with assms Some show ?thesis
      by (cases "dragging cl") (auto simp: deliver_pressed move_pressed_origin move_pressed_drag)
  next
    case other
    with assms deliver_other [OF other, of cl wb] show ?thesis by auto
  qed
qed

lemma deliver_tracks:
  assumes "browserWindow cl = Some bw"
    and "dragging cl \<longleftrightarrow> 1 \<le> n" and "cachePosition cl \<noteq> None \<longleftrightarrow> 2 \<le> n"
    and "deliver cl wb m = (cl', wb', es)"
  shows "(dragging cl' \<longleftrightarrow> 1 \<le> count_step n m)
       \<and> (cachePosition cl' \<noteq> None \<longleftrightarrow> 2 \<le> count_step n m)"
proof (cases m rule: deliver_cases)
  case release
  with assms(4) show ?thesis by (auto simp: deliver_release count_step_def)
next
  case pressed
  show ?thesis
  proof (cases "dragging cl")
    case True
    with pressed assms show ?thesis
      by (auto simp: deliver_pressed move_pressed_drag count_step_def)
  next
    case False
    with assms(2) have "n = 0" by simp
    with False pressed assms show ?thesis
      by (auto simp: deliver_pressed move_pressed_origin count_step_def)
  qed
next
  case other
  with assms deliver_other [OF other, of cl wb] show ?thesis
    by (auto simp: count_step_def)
qed

lemma deliver_all_keeps:
  "deliver_all cl wb ms = (cl', wb', es) \<Longrightarrow>
   browserWindow cl' = browserWindow cl \<and> options cl' = options cl"
proof (induction ms arbitrary: cl wb cl' wb' es)
  case Nil
  then show ?case by simp
next
  case (Cons m ms)
  obtain cl1 wb1 es1 where d: "deliver cl wb m = (cl1, wb1, es1)"
    by (cases "deliver cl wb m") auto
  obtain cl2 wb2 es2 where r: "deliver_all cl1 wb1 ms = (cl2, wb2, es2)"
    by (cases "deliver_all cl1 wb1 ms") auto
  from Cons.prems d r have "cl' = cl2" by simp
  with Cons.IH [OF r] deliver_keeps [OF d] show ?case by simp
qed

lemma deliver_all_tracks:
  assumes "browserWindow cl = Some bw"
    and "dragging cl \<longleftrightarrow> 1 \<le> n" and "cachePosition cl \<noteq> None \<longleftrightarrow> 2 \<le> n"
    and "deliver_all cl wb ms = (cl', wb', es)"
  shows "(dragging cl' \<longleftrightarrow> 1 \<le> foldl count_step n ms)
       \<and> (cachePosition cl' \<noteq> None \<longleftrightarrow> 2 \<le> foldl count_step n ms)"
  using assms
proof (induction ms arbitrary: cl wb n cl' wb' es)
  case Nil
  then show ?case by simp
next
  case (Cons m ms)
  obtain cl1 wb1 es1 where d: "deliver cl wb m = (cl1, wb1, es1)"
    by (cases "deliver cl wb m") auto
  obtain cl2 wb2 es2 where r: "deliver_all cl1 wb1 ms = (cl2, wb2, es2)"
    by (cases "deliver_all cl1 wb1 ms") auto
  from Cons.prems(4) d r have e: "cl' = cl2" by simp
  have b: "browserWindow cl1 = Some bw"
    using deliver_keeps [OF d] Cons.prems(1) by simp
  note t = deliver_tracks [OF Cons.prems(1,2,3) d]
  from Cons.IH [OF b conjunct1 [OF t] conjunct2 [OF t] r] e show ?case by simp
qed

lemma registered_tracks:
  assumes "deliver_all (makeWin32WindowFullyDraggable bw opts) wb ms = (cl, wb', es)"
  shows "(dragging cl \<longleftrightarrow> 1 \<le> moves_since_release ms)
       \<and> (cachePosition cl \<noteq> None \<longleftrightarrow> 2 \<le> moves_since_release ms)
       \<and> browserWindow cl = Some bw \<and> options cl = opts"
proof -
  let ?c = "makeWin32WindowFullyDraggable bw opts"
  have "browserWindow ?c = Some bw" "dragging ?c \<longleftrightarrow> 1 \<le> (0::nat)"
    "cachePosition ?c \<noteq> None \<longleftrightarrow> 2 \<le> (0::nat)" "options ?c = opts"
    by (simp_all add: makeWin32WindowFullyDraggable_def)
  with deliver_all_tracks [OF _ _ _ assms, of bw 0] deliver_all_keeps [OF assms]
  show ?thesis
    by (simp add: moves_since_release_def)
qed

lemmas win32_eval =
  deliver_def hook_WM_LBUTTONUP_def hook_WM_MOUSEMOVE_def readInt16LE_def move_pressed_def
  makeWin32WindowFullyDraggable_def MK_LBUTTON_def WM_MOUSEMOVE_def WM_LBUTTONUP_def Let_def

lemmas count_eval =
  moves_since_release_def count_step_def pressed_move_def is_release_def int16le_bytes
  WM_MOUSEMOVE_def WM_LBUTTONUP_def

lemma deliver_effects:
  assumes "deliver cl wb m = (cl', wb', es)"
  shows "es = []
       \<or> es = [Uncaught RangeError]
       \<or> (\<exists>bw nb. es = [SetBounds bw nb])
       \<or> (\<exists>p. cachePosition cl = Some p \<and> es = [Invoke (onDragEnd (options cl)) (Some p)])"
proof (cases "browserWindow cl")
  case None
  with assms show ?thesis
    by (cases m)
      (auto simp: deliver_def hook_WM_LBUTTONUP_def hook_WM_MOUSEMOVE_def split: if_splits)
next
  case (Some bw)
  show ?thesis
  proof (cases m rule: deliver_cases)
    case release
    with assms show ?thesis by (auto simp: deliver_release)
  next
    case pressed
    with assms Some show ?thesis
      by (cases "dragging cl") (auto simp: deliver_pressed move_pressed_origin move_pressed_drag)
  next
    case other
    with assms deliver_other [OF other, of cl wb] show ?thesis by auto
  qed
qed

lemma deliver_all_no_null:
  "deliver_all cl wb ms = (cl', wb', es) \<Longrightarrow> Invoke cb None \<notin> set es"
proof (induction ms arbitrary: cl wb cl' wb' es)
  case Nil
  then show ?case by simp
next
  case (Cons m ms)
  obtain cl1 wb1 es1 where d: "deliver cl wb m = (cl1, wb1, es1)"
    by (cases "deliver cl wb m") auto
  obtain cl2 wb2 es2 where r: "deliver_all cl1 wb1 ms = (cl2, wb2, es2)"
    by (cases "deliver_all cl1 wb1 ms") auto
  from Cons.prems d r have e: "es = es1 @ es2" by simp
  have "Invoke cb None \<notin> set es1"
    using deliver_effects [OF d] by auto
  with Cons.IH [OF r] e show ?case by simp
qed

lemma deliver_all_append:
  "deliver_all cl wb (xs @ ys) =
     (case deliver_all cl wb xs of (cl1, wb1, es1) \<Rightarrow>
        (case deliver_all cl1 wb1 ys of (cl2, wb2, es2) \<Rightarrow> (cl2, wb2, es1 @ es2)))"
  by (induction xs arbitrary: cl wb) (auto split: prod.splits)

lemma drag_moves:
  assumes "browserWindow cl = Some bw" and "dragging cl"
    and "\<forall>m\<in>set ms. pressed_move m"
    and "deliver_all cl wb ms = (cl', wb', es)"
  shows "browserWindow cl' = Some bw \<and> options cl' = options cl
       \<and> initialPos cl' = initialPos cl \<and> dragging cl'
       \<and> rc_x wb' = rc_x wb + sum_list (map (\<lambda>m. pointer_x m - rc_x (initialPos cl)) ms)
       \<and> rc_y wb' = rc_y wb + sum_list (map (\<lambda>m. pointer_y m - rc_y (initialPos cl)) ms)
       \<and> filter is_Invoke es = []
       \<and> (ms = [] \<longrightarrow> cl' = cl \<and> wb' = wb)
       \<and> (ms \<noteq> [] \<longrightarrow> cachePosition cl' = Some \<lparr>pt_x = rc_x wb', pt_y = rc_y wb'\<rparr>)"
  using assms
proof (induction ms arbitrary: cl' wb' es rule: rev_induct)
  case Nil
  then show ?case by simp
next
  case (snoc m ms)
  obtain cl1 wb1 es1 where r: "deliver_all cl wb ms = (cl1, wb1, es1)"
    by (cases "deliver_all cl wb ms") auto
  from snoc.prems(3) have p: "\<forall>m\<in>set ms. pressed_move m" and pm: "pressed_move m"
    by simp_all
  note ih = snoc.IH [OF snoc.prems(1,2) p r]
  from ih have b: "browserWindow cl1 = Some bw" and d: "dragging cl1"
    by simp_all
  have "deliver cl1 wb1 m = move_pressed bw cl1 (fst m) wb1 (pointer_x m) (pointer_y m)"
    using b pm by (rule deliver_pressed)
  with snoc.prems(4) r d ih show ?case
    by (auto simp: deliver_all_append move_pressed_drag)
qed

lemma deliver_origin:
  assumes "pressed_move m0"
  shows "deliver (makeWin32WindowFullyDraggable bw opts) wb m0 =
           ((makeWin32WindowFullyDraggable bw opts)
              \<lparr>dragging := True,
               initialPos := \<lparr>rc_x = pointer_x m0, rc_y = pointer_y m0,
                              rc_height = sz_height (effective_size opts (fst m0)),
                              rc_width = sz_width (effective_size opts (fst m0))\<rparr>\<rparr>,
            wb, [])"
proof -
  have "browserWindow (makeWin32WindowFullyDraggable bw opts) = Some bw"
    "\<not> dragging (makeWin32WindowFullyDraggable bw opts)"
    "options (makeWin32WindowFullyDraggable bw opts) = opts"
    by (simp_all add: makeWin32WindowFullyDraggable_def)
  then show ?thesis
    using assms by (simp add: deliver_pressed move_pressed_origin)
qed

text \<open>One drag from registration: the origin, further qualifying moves, the release.\<close>

lemma one_drag:
  assumes "\<forall>m\<in>set (m0 # mvs). pressed_move m" and "is_release r"
    and "deliver_all (makeWin32WindowFullyDraggable bw opts) wb (m0 # mvs) = (cl, wb', es)"
  shows "filter is_Invoke es = []
       \<and> options cl = opts
       \<and> rc_x wb' = rc_x wb + sum_list (map (\<lambda>m. pointer_x m - pointer_x m0) mvs)
       \<and> rc_y wb' = rc_y wb + sum_list (map (\<lambda>m. pointer_y m - pointer_y m0) mvs)
       \<and> rc_x (initialPos cl) = pointer_x m0 \<and> rc_y (initialPos cl) = pointer_y m0
       \<and> browserWindow cl = Some bw \<and> dragging cl
       \<and> (mvs = [] \<longrightarrow> cachePosition cl = None)
       \<and> (mvs \<noteq> [] \<longrightarrow> cachePosition cl = Some \<lparr>pt_x = rc_x wb', pt_y = rc_y wb'\<rparr>)"
proof -
  let ?c = "(makeWin32WindowFullyDraggable bw opts)
              \<lparr>dragging := True,
               initialPos := \<lparr>rc_x = pointer_x m0, rc_y = pointer_y m0,
                              rc_height = sz_height (effective_size opts (fst m0)),
                              rc_width = sz_width (effective_size opts (fst m0))\<rparr>\<rparr>"
  from assms(1) have p0: "pressed_move m0" and p: "\<forall>m\<in>set mvs. pressed_move m"
    by simp_all
  obtain cl2 wb2 es2 where r: "deliver_all ?c wb mvs = (cl2, wb2, es2)"
    by (cases "deliver_all ?c wb mvs") auto
  have e: "cl = cl2" "wb' = wb2" "es = es2"
    using assms(3) r by (simp_all add: deliver_origin [OF p0])
  have c: "browserWindow ?c = Some bw" "dragging ?c"
    by (simp_all add: makeWin32WindowFullyDraggable_def)
  have n: "cachePosition ?c = None" "options ?c = opts"
    by (simp_all add: makeWin32WindowFullyDraggable_def)
  from drag_moves [OF c p r] n show ?thesis
    unfolding e by auto
qed

lemma sum_list_butlast_last:
  "xs \<noteq> [] \<Longrightarrow> sum_list (map f xs) = sum_list (map f (butlast xs)) + (f (last xs) :: int)"
  by (induction xs rule: rev_induct) simp_all

subsection \<open>Strategy B: one message\<close>

lemma message_unregistered:
  "registeredWindows rt w = None \<Longrightarrow>
   on_set_window_draggable rt env (Some w) position = Inr (rt, [])"
  by (simp add: on_set_window_draggable_def)

lemma message_no_window:
  "on_set_window_draggable rt env None position = Inr (rt, [])"
  by (simp add: on_set_window_draggable_def)

lemma message_registered:
  "registeredWindows rt w = Some r \<Longrightarrow>
   on_set_window_draggable rt env (Some w) (Some p) =
     Inr (fst (call (onDragEnd (objects rt ! r)) (Some p) rt),
          SetBounds w
            \<lparr>rc_x = pt_x p, rc_y = pt_y p,
             rc_height = sz_height (effective_size (objects rt ! r) env),
             rc_width = sz_width (effective_size (objects rt ! r) env)\<rparr>
          # snd (call (onDragEnd (objects rt ! r)) (Some p) rt))"
  by (simp add: on_set_window_draggable_def effective_size_def Let_def
      split: option.split prod.split)

lemma call_effects: "filter is_SetBounds (snd (call cb position rt)) = []"
  by (cases cb) simp_all

lemma session_size:
  assumes "browserWindow cl = Some bw" and "dragging cl"
    and "\<forall>m\<in>set ms. \<not> is_release m"
    and "deliver_all cl wb ms = (cl', wb', es)"
  shows "\<forall>w b. SetBounds w b \<in> set es \<longrightarrow>
           w = bw \<and> rc_width b = rc_width (initialPos cl) \<and> rc_height b = rc_height (initialPos cl)"
  using assms
proof (induction ms arbitrary: cl wb cl' wb' es)
  case Nil
  then show ?case by simp
next
  case (Cons m ms)
  obtain cl1 wb1 es1 where d: "deliver cl wb m = (cl1, wb1, es1)"
    by (cases "deliver cl wb m") auto
  obtain cl2 wb2 es2 where r: "deliver_all cl1 wb1 ms = (cl2, wb2, es2)"
    by (cases "deliver_all cl1 wb1 ms") auto
  from Cons.prems(4) d r have e: "es = es1 @ es2" by simp
  from Cons.prems(3) have nr: "\<not> is_release m" and rest: "\<forall>m\<in>set ms. \<not> is_release m"
    by simp_all
  have s: "browserWindow cl1 = Some bw \<and> dragging cl1 \<and> initialPos cl1 = initialPos cl
         \<and> (\<forall>w b. SetBounds w b \<in> set es1 \<longrightarrow>
               w = bw \<and> rc_width b = rc_width (initialPos cl)
               \<and> rc_height b = rc_height (initialPos cl))"
  proof (cases "pressed_move m")
    case True
    with d Cons.prems(1,2) show ?thesis
      by (auto simp: deliver_pressed move_pressed_drag)
  next
    case False
    with d Cons.prems(1,2) deliver_other [OF nr False, of cl wb] show ?thesis
      by auto
  qed
  with Cons.IH [OF _ _ rest r] e show ?case
    by auto
qed

lemmas ipc_eval =
  on_set_window_draggable_def setWindowDraggable_def boot_def debounce_def on_closed_def Let_def

subsection \<open>Timers\<close>

lemma quiet_iff: "quiet rt \<longleftrightarrow> (\<forall>c<length (wrappers rt). db_pending (wrappers rt ! c) = None)"
  by (simp add: quiet_def list_all_length)

lemma fire_idle: "db_pending (wrappers rt ! c) = None \<Longrightarrow> fire c rt = (rt, [])"
  by (simp add: fire_def)

lemma fire_early:
  "db_pending (wrappers rt ! c) = Some (due, position) \<Longrightarrow> clock rt < due \<Longrightarrow> fire c rt = (rt, [])"
  by (simp add: fire_def)

lemma fire_due:
  "wraps rt c f \<Longrightarrow> db_pending (wrappers rt ! c) = Some (due, position) \<Longrightarrow> due \<le> clock rt \<Longrightarrow>
   fire c rt =
     (rt\<lparr>wrappers := (wrappers rt)[c := (wrappers rt ! c)\<lparr>db_pending := None\<rparr>]\<rparr>,
      [Invoke (Caller f) position])"
  by (simp add: fire_def wraps_def)

lemma fire_each_idle:
  "\<forall>c\<in>set cs. db_pending (wrappers rt ! c) = None \<Longrightarrow> fire_each cs rt = (rt, [])"
  by (induction cs) (simp_all add: fire_idle)

lemma fire_each_append:
  "fire_each (xs @ ys) rt =
     (case fire_each xs rt of (rt1, es1) \<Rightarrow>
        (case fire_each ys rt1 of (rt2, es2) \<Rightarrow> (rt2, es1 @ es2)))"
  by (induction xs arbitrary: rt) (auto split: prod.splits)

text \<open>When no other wrapper has a timer pending, a tick is the timer of \<open>c\<close> alone.\<close>

lemma tick_sole:
  assumes "wraps rt c f" and "others_idle rt c"
  shows "tick rt =
           (case db_pending (wrappers rt ! c) of
              None \<Rightarrow> (rt\<lparr>clock := clock rt + 1\<rparr>, [])
            | Some (due, position) \<Rightarrow>
                if due \<le> clock rt + 1 then
                  (rt\<lparr>clock := clock rt + 1,
                      wrappers := (wrappers rt)[c := (wrappers rt ! c)\<lparr>db_pending := None\<rparr>]\<rparr>,
                   [Invoke (Caller f) position])
                else (rt\<lparr>clock := clock rt + 1\<rparr>, []))"
proof -
  let ?n = "length (wrappers rt)"
  let ?rt = "rt\<lparr>clock := clock rt + 1\<rparr>"
  from assms(1) have c: "c < ?n" by (simp add: wraps_def)
  have w: "wraps ?rt c f" using assms(1) by (simp add: wraps_def)
  have split: "[0..<?n] = [0..<c] @ [c] @ [Suc c..<?n]"
    using c by (metis Suc_leI append_Cons append_Nil le0 upt_add_eq_append upt_conv_Cons
        le_add_diff_inverse less_imp_le_nat)
  have before: "fire_each [0..<c] ?rt = (?rt, [])"
    using assms(2) c by (intro fire_each_idle) (simp add: others_idle_def)
  have after: "fire_each [Suc c..<?n] rt' = (rt', [])"
    if "\<forall>c'<?n. c' \<noteq> c \<longrightarrow> db_pending (wrappers rt' ! c') = None" for rt' :: "'a runtime"
    using that by (intro fire_each_idle) simp
  have o: "\<forall>c'<?n. c' \<noteq> c \<longrightarrow> db_pending (wrappers rt ! c') = None"
    using assms(2) by (simp add: others_idle_def)
  show ?thesis
  proof (cases "db_pending (wrappers rt ! c)")
    case None
    then have "fire c ?rt = (?rt, [])" by (simp add: fire_idle)
    with before after [of ?rt] o None show ?thesis
      by (simp add: tick_def split fire_each_append)
  next
    case (Some dp)
    obtain due position where dp: "dp = (due, position)" by (cases dp)
    show ?thesis
    proof (cases "due \<le> clock rt + 1")
      case True
      let ?f = "?rt\<lparr>wrappers := (wrappers ?rt)[c := (wrappers ?rt ! c)\<lparr>db_pending := None\<rparr>]\<rparr>"
      have "fire c ?rt = (?f, [Invoke (Caller f) position])"
        using w Some dp True by (intro fire_due) simp_all
      moreover have "fire_each [Suc c..<?n] ?f = (?f, [])"
        using o by (intro fire_each_idle) simp
      ultimately show ?thesis
        using before Some dp True by (simp add: tick_def split fire_each_append)
    next
      case False
      then have "fire c ?rt = (?rt, [])"
        using Some dp by (intro fire_early [of _ _ due position]) simp_all
      with before after [of ?rt] o Some dp False show ?thesis
        by (simp add: tick_def split fire_each_append)
    qed
  qed
qed

lemma elapse_idle:
  assumes "wraps rt c f" and "others_idle rt c" and "db_pending (wrappers rt ! c) = None"
  shows "elapse n rt = (rt\<lparr>clock := clock rt + n\<rparr>, [])"
  using assms
proof (induction n arbitrary: rt)
  case 0
  then show ?case by simp
next
  case (Suc n)
  let ?rt = "rt\<lparr>clock := clock rt + 1\<rparr>"
  have t: "tick rt = (?rt, [])"
    using tick_sole [OF Suc.prems(1,2)] Suc.prems(3) by simp
  have "elapse n ?rt = (?rt\<lparr>clock := clock ?rt + n\<rparr>, [])"
    using Suc.prems by (intro Suc.IH) (simp_all add: wraps_def others_idle_def)
  with t show ?case by simp
qed

lemma elapse_early:
  assumes "wraps rt c f" and "others_idle rt c"
    and "db_pending (wrappers rt ! c) = Some (due, position)" and "clock rt + n < due"
  shows "elapse n rt = (rt\<lparr>clock := clock rt + n\<rparr>, [])"
  using assms
proof (induction n arbitrary: rt)
  case 0
  then show ?case by simp
next
  case (Suc n)
  let ?rt = "rt\<lparr>clock := clock rt + 1\<rparr>"
  have t: "tick rt = (?rt, [])"
    using tick_sole [OF Suc.prems(1,2)] Suc.prems(3,4) by simp
  have "elapse n ?rt = (?rt\<lparr>clock := clock ?rt + n\<rparr>, [])"
    using Suc.prems by (intro Suc.IH) (simp_all add: wraps_def others_idle_def)
  with t show ?case by simp
qed

lemma elapse_due:
  assumes "wraps rt c f" and "others_idle rt c"
    and "db_pending (wrappers rt ! c) = Some (due, position)"
    and "clock rt < due" and "due \<le> clock rt + n"
  shows "elapse n rt =
           (rt\<lparr>clock := clock rt + n,
               wrappers := (wrappers rt)[c := (wrappers rt ! c)\<lparr>db_pending := None\<rparr>]\<rparr>,
            [Invoke (Caller f) position])"
  using assms
proof (induction n arbitrary: rt)
  case 0
  then show ?case by simp
next
  case (Suc n)
  let ?rt = "rt\<lparr>clock := clock rt + 1\<rparr>"
  from Suc.prems(1) have c: "c < length (wrappers rt)" by (simp add: wraps_def)
  show ?case
  proof (cases "due \<le> clock rt + 1")
    case True
    let ?f = "rt\<lparr>clock := clock rt + 1,
                 wrappers := (wrappers rt)[c := (wrappers rt ! c)\<lparr>db_pending := None\<rparr>]\<rparr>"
    have t: "tick rt = (?f, [Invoke (Caller f) position])"
      using tick_sole [OF Suc.prems(1,2)] Suc.prems(3) True by simp
    have "elapse n ?f = (?f\<lparr>clock := clock ?f + n\<rparr>, [])"
      using Suc.prems(1,2) c by (intro elapse_idle [of _ c f]) (simp_all add: wraps_def others_idle_def)
    with t show ?thesis by simp
  next
    case False
    have t: "tick rt = (?rt, [])"
      using tick_sole [OF Suc.prems(1,2)] Suc.prems(3) False by simp
    have "elapse n ?rt =
           (?rt\<lparr>clock := clock ?rt + n,
               wrappers := (wrappers ?rt)[c := (wrappers ?rt ! c)\<lparr>db_pending := None\<rparr>]\<rparr>,
            [Invoke (Caller f) position])"
      using Suc.prems False by (intro Suc.IH) (simp_all add: wraps_def others_idle_def)
    with t show ?thesis by simp
  qed
qed

lemma run_append:
  "run rt (xs @ ys) =
     (case run rt xs of (rt1, es1) \<Rightarrow>
        (case run rt1 ys of (rt2, es2) \<Rightarrow> (rt2, es1 @ es2)))"
  by (induction xs arbitrary: rt) (auto split: prod.splits)

lemma message_arms:
  assumes "registeredWindows rt w = Some r" and "onDragEnd (objects rt ! r) = Debounced c"
  shows "step rt (Message env (Some w) (Some p)) =
           (rt\<lparr>wrappers := (wrappers rt)
                 [c := (wrappers rt ! c)
                    \<lparr>db_pending := Some (clock rt + db_wait (wrappers rt ! c), Some p)\<rparr>]\<rparr>,
            [SetBounds w
               \<lparr>rc_x = pt_x p, rc_y = pt_y p,
                rc_height = sz_height (effective_size (objects rt ! r) env),
                rc_width = sz_width (effective_size (objects rt ! r) env)\<rparr>])"
  using assms by (simp add: message_registered)

text \<open>
  Registration off win32 makes a wrapper with a wait of 300 around the function found in
  the options object, stores the wrapper in that object and the object in the registry,
  and starts no timer.
\<close>

lemma registration_wraps:
  assumes "platform \<noteq> ''win32''" and "r < length (objects rt)"
    and "onDragEnd (objects rt ! r) = Caller f"
  shows "registeredWindows (setWindowDraggable platform w r rt) w = Some r"
    and "onDragEnd (objects (setWindowDraggable platform w r rt) ! r) = Debounced (length (wrappers rt))"
    and "wraps (setWindowDraggable platform w r rt) (length (wrappers rt)) f"
    and "quiet rt \<Longrightarrow> quiet (setWindowDraggable platform w r rt)"
  using assms
  by (simp_all add: setWindowDraggable_def Let_def wraps_def quiet_def debounce_def nth_append)

text \<open>
  While every gap is shorter than the wait, a burst keeps the one timer pending, due 300
  after the latest message and holding its position, and nothing is invoked.
\<close>

lemma burst_keeps_pending:
  assumes "registeredWindows rt w = Some r" and "onDragEnd (objects rt ! r) = Debounced c"
    and "wraps rt c f" and "others_idle rt c"
    and "db_pending (wrappers rt ! c) = Some (clock rt + 300, Some p0)"
    and "\<forall>(gap, env, p)\<in>set rest. gap < 300"
    and "run rt (burst w rest) = (rt', es)"
  shows "wraps rt' c f \<and> others_idle rt' c
       \<and> db_pending (wrappers rt' ! c) = Some (clock rt' + 300, Some (last (p0 # map (snd \<circ> snd) rest)))
       \<and> filter is_Invoke es = []"
  using assms
proof (induction rest arbitrary: rt p0 rt' es)
  case Nil
  then show ?case by simp
next
  case (Cons item rest)
  obtain gap env p where item: "item = (gap, env, p)" by (cases item)
  from Cons.prems(6) item have g: "gap < 300" and gs: "\<forall>(gap, env, p)\<in>set rest. gap < 300"
    by auto
  let ?a = "rt\<lparr>clock := clock rt + gap\<rparr>"
  let ?b = "?a\<lparr>wrappers := (wrappers ?a)
                 [c := (wrappers ?a ! c)\<lparr>db_pending := Some (clock ?a + 300, Some p)\<rparr>]\<rparr>"
  from Cons.prems(3) have c: "c < length (wrappers rt)" and wt: "db_wait (wrappers rt ! c) = 300"
    by (simp_all add: wraps_def)
  have w1: "elapse gap rt = (?a, [])"
    using Cons.prems(3,4,5) g by (intro elapse_early [of _ c f "clock rt + 300" "Some p0"]) simp_all
  have w2: "step ?a (Message env (Some w) (Some p)) =
              (?b, [SetBounds w
                 \<lparr>rc_x = pt_x p, rc_y = pt_y p,
                  rc_height = sz_height (effective_size (objects ?a ! r) env),
                  rc_width = sz_width (effective_size (objects ?a ! r) env)\<rparr>])"
    using message_arms [of ?a w r c env p] Cons.prems(1,2) wt by simp
  obtain rt2 es2 where r2: "run ?b (burst w rest) = (rt2, es2)"
    by (cases "run ?b (burst w rest)") auto
  have e: "rt' = rt2" "filter is_Invoke es = filter is_Invoke es2"
    using Cons.prems(7) item w1 w2 r2 by auto
  have "wraps rt2 c f \<and> others_idle rt2 c
       \<and> db_pending (wrappers rt2 ! c) = Some (clock rt2 + 300, Some (last (p # map (snd \<circ> snd) rest)))
       \<and> filter is_Invoke es2 = []"
    using Cons.prems(1,2,3,4) c gs r2
    by (intro Cons.IH [of ?b p rt2 es2]) (auto simp: wraps_def others_idle_def)
  with e item show ?case by (simp add: comp_def)
qed

subsection \<open>The close notification\<close>

text \<open>The timers neither read nor change the registry.\<close>

lemma fire_registry:
  "fire c (rt\<lparr>registeredWindows := X\<rparr>) =
     (fst (fire c rt)\<lparr>registeredWindows := X\<rparr>, snd (fire c rt))"
  by (cases "db_fn (wrappers rt ! c)") (auto simp: fire_def split: option.split)

lemma fire_each_registry:
  "fire_each cs (rt\<lparr>registeredWindows := X\<rparr>) =
     (fst (fire_each cs rt)\<lparr>registeredWindows := X\<rparr>, snd (fire_each cs rt))"
  by (induction cs arbitrary: rt) (simp_all add: fire_registry split: prod.split)

lemma tick_registry:
  "tick (rt\<lparr>registeredWindows := X\<rparr>) =
     (fst (tick rt)\<lparr>registeredWindows := X\<rparr>, snd (tick rt))"
proof -
  have e: "(rt\<lparr>registeredWindows := X\<rparr>)\<lparr>clock := n\<rparr>
         = (rt\<lparr>clock := n\<rparr>)\<lparr>registeredWindows := X\<rparr>" for n
    by (cases rt) simp
  show ?thesis
    by (simp add: tick_def e fire_each_registry)
qed

lemma elapse_registry:
  "elapse n (rt\<lparr>registeredWindows := X\<rparr>) =
     (fst (elapse n rt)\<lparr>registeredWindows := X\<rparr>, snd (elapse n rt))"
  by (induction n arbitrary: rt) (simp_all add: tick_registry split: prod.split)

lemma elapse_keeps_registry: "registeredWindows (fst (elapse n rt)) = registeredWindows rt"
proof -
  have "elapse n rt = elapse n (rt\<lparr>registeredWindows := registeredWindows rt\<rparr>)"
    by simp
  also have "\<dots> = (fst (elapse n rt)\<lparr>registeredWindows := registeredWindows rt\<rparr>, snd (elapse n rt))"
    by (rule elapse_registry)
  finally have "fst (elapse n rt) = fst (elapse n rt)\<lparr>registeredWindows := registeredWindows rt\<rparr>"
    by (metis fst_conv)
  then have "registeredWindows (fst (elapse n rt))
           = registeredWindows (fst (elapse n rt)\<lparr>registeredWindows := registeredWindows rt\<rparr>)"
    by simp
  then show ?thesis by simp
qed

lemma elapse_add:
  "elapse (a + b) rt =
     (fst (elapse b (fst (elapse a rt))), snd (elapse a rt) @ snd (elapse b (fst (elapse a rt))))"
  by (induction a arbitrary: rt) (simp_all split: prod.split)

lemma closed_unregistered: "registeredWindows rt w = None \<Longrightarrow> on_closed w rt = rt"
  by (simp add: on_closed_def fun_upd_idem)

lemma run_after_close:
  assumes "registeredWindows rt w = None" and "\<forall>ev\<in>set evs. after_close w ev"
  shows "run rt evs = elapse (waited evs) rt"
  using assms
proof (induction evs arbitrary: rt)
  case Nil
  then show ?case by simp
next
  case (Cons ev evs)
  from Cons.prems(2) have a: "after_close w ev" and rest: "\<forall>ev\<in>set evs. after_close w ev"
    by simp_all
  show ?case
  proof (cases ev)
    case (Message env sender position)
    with a Cons.prems(1) have "step rt ev = (rt, [])"
      by (auto simp: message_unregistered message_no_window)
    with Cons.IH [OF Cons.prems(1) rest] Message show ?thesis by simp
  next
    case (Closed w')
    with a Cons.prems(1) have "step rt ev = (rt, [])"
      by (simp add: closed_unregistered)
    with Cons.IH [OF Cons.prems(1) rest] Closed show ?thesis by simp
  next
    case (Wait n)
    have "registeredWindows (fst (elapse n rt)) w = None"
      using Cons.prems(1) by (simp add: elapse_keeps_registry)
    from Cons.IH [OF this rest] Wait show ?thesis
      by (simp add: elapse_add case_prod_beta)
  qed
qed

text \<open>A message, then the close notification of its window, then 300 ms.\<close>

lemma timer_survives_close:
  assumes "registeredWindows rt w = Some r" and "onDragEnd (objects rt ! r) = Debounced c"
    and "wraps rt c f" and "quiet rt"
  shows "run rt [Message env (Some w) (Some p), Closed w, Wait 300] =
           (on_closed w
              (rt\<lparr>clock := clock rt + 300,
                  wrappers := (wrappers rt)[c := (wrappers rt ! c)\<lparr>db_pending := None\<rparr>]\<rparr>),
            [SetBounds w
               \<lparr>rc_x = pt_x p, rc_y = pt_y p,
                rc_height = sz_height (effective_size (objects rt ! r) env),
                rc_width = sz_width (effective_size (objects rt ! r) env)\<rparr>,
             Invoke (Caller f) (Some p)])"
proof -
  let ?a = "rt\<lparr>wrappers := (wrappers rt)
                 [c := (wrappers rt ! c)\<lparr>db_pending := Some (clock rt + 300, Some p)\<rparr>]\<rparr>"
  from assms(3) have c: "c < length (wrappers rt)" and wt: "db_wait (wrappers rt ! c) = 300"
    by (simp_all add: wraps_def)
  have s: "step rt (Message env (Some w) (Some p)) =
             (?a, [SetBounds w
               \<lparr>rc_x = pt_x p, rc_y = pt_y p,
                rc_height = sz_height (effective_size (objects rt ! r) env),
                rc_width = sz_width (effective_size (objects rt ! r) env)\<rparr>])"
    using message_arms [OF assms(1,2), of env p] wt by simp
  have "elapse 300 ?a =
          (?a\<lparr>clock := clock ?a + 300,
              wrappers := (wrappers ?a)[c := (wrappers ?a ! c)\<lparr>db_pending := None\<rparr>]\<rparr>,
           [Invoke (Caller f) (Some p)])"
    using assms(3,4) c
    by (intro elapse_due [of ?a c f "clock rt + 300" "Some p" 300])
      (simp_all add: wraps_def others_idle_def quiet_iff)
  then have e: "elapse 300 (on_closed w ?a) =
          (on_closed w
             (rt\<lparr>clock := clock rt + 300,
                 wrappers := (wrappers rt)[c := (wrappers rt ! c)\<lparr>db_pending := None\<rparr>]\<rparr>),
           [Invoke (Caller f) (Some p)])"
    using c by (simp add: on_closed_def elapse_registry)
  show ?thesis
    by (simp only: run.simps step.simps(2,3) s e prod.case append.simps append_Nil2)
qed

section \<open>The claims\<close>

subsection \<open>C1\<close>

text \<open>
  C1, as the code has it. A release calls \<open>onDragEnd\<close> once, with the cached position,
  when at least two qualifying moves (the origin and one more) were handled since the
  previous release, and does not call it otherwise. In a drag of one origin move, N
  further qualifying moves and a release, \<open>onDragEnd\<close> is called once if N > 0 (not at
  all if N = 0), with the last move's offset from the origin added to the position the
  window has when that last move is handled. Every earlier move has already displaced
  the window, so this is the position at drag-start plus the sum of the offsets of all N
  moves, not the position at drag-start plus the last offset.
\<close>

theorem C1_release_semantics:
  "snd (hook_WM_LBUTTONUP (fst (deliver_all (makeWin32WindowFullyDraggable bw opts) wb ms))) =
     (if 2 \<le> moves_since_release ms
      then [Invoke (onDragEnd opts)
              (cachePosition (fst (deliver_all (makeWin32WindowFullyDraggable bw opts) wb ms)))]
      else [])
   \<and> (2 \<le> moves_since_release ms \<longrightarrow>
        cachePosition (fst (deliver_all (makeWin32WindowFullyDraggable bw opts) wb ms)) \<noteq> None)
   \<and> ((\<forall>m\<in>set (m0 # mvs). pressed_move m) \<and> is_release r \<longrightarrow>
        filter is_Invoke
          (snd (snd (deliver_all (makeWin32WindowFullyDraggable bw opts) wb (m0 # mvs @ [r])))) =
          (if mvs = [] then []
           else [Invoke (onDragEnd opts)
                   (Some \<lparr>pt_x = rc_x (fst (snd (deliver_all (makeWin32WindowFullyDraggable bw opts)
                                                   wb (m0 # butlast mvs))))
                                 + (pointer_x (last mvs) - pointer_x m0),
                          pt_y = rc_y (fst (snd (deliver_all (makeWin32WindowFullyDraggable bw opts)
                                                   wb (m0 # butlast mvs))))
                                 + (pointer_y (last mvs) - pointer_y m0)\<rparr>)])
        \<and> (mvs \<noteq> [] \<longrightarrow>
             rc_x (fst (snd (deliver_all (makeWin32WindowFullyDraggable bw opts) wb (m0 # butlast mvs))))
               + (pointer_x (last mvs) - pointer_x m0)
             = rc_x wb + sum_list (map (\<lambda>m. pointer_x m - pointer_x m0) mvs)
           \<and> rc_y (fst (snd (deliver_all (makeWin32WindowFullyDraggable bw opts) wb (m0 # butlast mvs))))
               + (pointer_y (last mvs) - pointer_y m0)
             = rc_y wb + sum_list (map (\<lambda>m. pointer_y m - pointer_y m0) mvs)))"
proof -
  let ?reg = "makeWin32WindowFullyDraggable bw opts"
  obtain cl wb' es where a: "deliver_all ?reg wb ms = (cl, wb', es)"
    by (cases "deliver_all ?reg wb ms") auto
  note t = registered_tracks [OF a]
  have one: "snd (hook_WM_LBUTTONUP (fst (deliver_all ?reg wb ms))) =
     (if 2 \<le> moves_since_release ms
      then [Invoke (onDragEnd opts) (cachePosition (fst (deliver_all ?reg wb ms)))] else [])"
    using t by (simp add: a hook_WM_LBUTTONUP_def)
  have two: "2 \<le> moves_since_release ms \<longrightarrow> cachePosition (fst (deliver_all ?reg wb ms)) \<noteq> None"
    using t by (simp add: a)
  have three: "filter is_Invoke (snd (snd (deliver_all ?reg wb (m0 # mvs @ [r])))) =
          (if mvs = [] then []
           else [Invoke (onDragEnd opts)
                   (Some \<lparr>pt_x = rc_x (fst (snd (deliver_all ?reg wb (m0 # butlast mvs))))
                                 + (pointer_x (last mvs) - pointer_x m0),
                          pt_y = rc_y (fst (snd (deliver_all ?reg wb (m0 # butlast mvs))))
                                 + (pointer_y (last mvs) - pointer_y m0)\<rparr>)])
        \<and> (mvs \<noteq> [] \<longrightarrow>
             rc_x (fst (snd (deliver_all ?reg wb (m0 # butlast mvs))))
               + (pointer_x (last mvs) - pointer_x m0)
             = rc_x wb + sum_list (map (\<lambda>m. pointer_x m - pointer_x m0) mvs)
           \<and> rc_y (fst (snd (deliver_all ?reg wb (m0 # butlast mvs))))
               + (pointer_y (last mvs) - pointer_y m0)
             = rc_y wb + sum_list (map (\<lambda>m. pointer_y m - pointer_y m0) mvs))"
    if p: "\<forall>m\<in>set (m0 # mvs). pressed_move m" and rel: "is_release r"
  proof -
    obtain c1 w1 e1 where f: "deliver_all ?reg wb (m0 # mvs) = (c1, w1, e1)"
      by (cases "deliver_all ?reg wb (m0 # mvs)") auto
    note d = one_drag [OF p rel f]
    have pb: "\<forall>m\<in>set (m0 # butlast mvs). pressed_move m"
      using p by (auto dest: in_set_butlastD)
    obtain c0 w0 e0 where g: "deliver_all ?reg wb (m0 # butlast mvs) = (c0, w0, e0)"
      by (cases "deliver_all ?reg wb (m0 # butlast mvs)") auto
    note b = one_drag [OF pb rel g]
    have run: "deliver_all ?reg wb (m0 # mvs @ [r]) =
                 (c1\<lparr>dragging := False, cachePosition := None\<rparr>, w1,
                  e1 @ (if cachePosition c1 \<noteq> None
                        then [Invoke (onDragEnd (options c1)) (cachePosition c1)] else []))"
      using deliver_all_append [of ?reg wb "m0 # mvs" "[r]"] f
      by (simp add: deliver_release [OF rel])
    have x: "rc_x w0 + (pointer_x (last mvs) - pointer_x m0) = rc_x w1" if "mvs \<noteq> []"
      using d b sum_list_butlast_last [OF that, of "\<lambda>m. pointer_x m - pointer_x m0"] by simp
    have y: "rc_y w0 + (pointer_y (last mvs) - pointer_y m0) = rc_y w1" if "mvs \<noteq> []"
      using d b sum_list_butlast_last [OF that, of "\<lambda>m. pointer_y m - pointer_y m0"] by simp
    show ?thesis
      unfolding run g using d x y by (cases "mvs = []") simp_all
  qed
  from one two three show ?thesis
    by blast
qed

text \<open>
  The claim as stated fails for N = 2: the window is at (100, 100), the origin move is at
  (50, 60) and two further moves are at (70, 60). The last move's offset (20, 0) applied
  to the position at drag-start gives (120, 100); \<open>onDragEnd\<close> receives (140, 100).
\<close>

theorem C1_drag_start_counterexample:
  "filter is_Invoke (snd (snd (deliver_all
      (makeWin32WindowFullyDraggable 1
         \<lparr>width = 800, height = 600, getWindowSize = None, onDragEnd = Caller 0\<rparr>)
      \<lparr>rc_x = 100, rc_y = 100, rc_height = 600, rc_width = 800\<rparr>
      [((), WM_MOUSEMOVE, [1, 0, 0, 0, 0, 0, 0, 0], [50, 0, 60, 0, 0, 0, 0, 0]),
       ((), WM_MOUSEMOVE, [1, 0, 0, 0, 0, 0, 0, 0], [70, 0, 60, 0, 0, 0, 0, 0]),
       ((), WM_MOUSEMOVE, [1, 0, 0, 0, 0, 0, 0, 0], [70, 0, 60, 0, 0, 0, 0, 0]),
       ((), WM_LBUTTONUP, [0, 0, 0, 0, 0, 0, 0, 0], [70, 0, 60, 0, 0, 0, 0, 0])])))
     = [Invoke (Caller 0) (Some \<lparr>pt_x = 140, pt_y = 100\<rparr>)]
   \<and> \<lparr>pt_x = 140, pt_y = 100\<rparr> \<noteq> \<lparr>pt_x = 100 + (70 - 50), pt_y = 100 + (60 - 60)\<rparr>"
  by (simp add: win32_eval)

theorem C1_release_semantics_witness:
  "pressed_move ((), WM_MOUSEMOVE, [1, 0, 0, 0, 0, 0, 0, 0], [50, 0, 60, 0, 0, 0, 0, 0])
   \<and> pressed_move ((), WM_MOUSEMOVE, [1, 0, 0, 0, 0, 0, 0, 0], [70, 0, 60, 0, 0, 0, 0, 0])
   \<and> is_release ((), WM_LBUTTONUP, [0, 0, 0, 0, 0, 0, 0, 0], [70, 0, 60, 0, 0, 0, 0, 0])
   \<and> 2 \<le> moves_since_release
        [((), WM_MOUSEMOVE, [1, 0, 0, 0, 0, 0, 0, 0], [50, 0, 60, 0, 0, 0, 0, 0]),
         ((), WM_MOUSEMOVE, [1, 0, 0, 0, 0, 0, 0, 0], [70, 0, 60, 0, 0, 0, 0, 0]),
         ((), WM_MOUSEMOVE, [1, 0, 0, 0, 0, 0, 0, 0], [70, 0, 60, 0, 0, 0, 0, 0])]
   \<and> snd (hook_WM_LBUTTONUP (fst (deliver_all
        (makeWin32WindowFullyDraggable 1
           \<lparr>width = 800, height = 600, getWindowSize = None, onDragEnd = Caller 0\<rparr>)
        \<lparr>rc_x = 100, rc_y = 100, rc_height = 600, rc_width = 800\<rparr>
        [((), WM_MOUSEMOVE, [1, 0, 0, 0, 0, 0, 0, 0], [50, 0, 60, 0, 0, 0, 0, 0]),
         ((), WM_MOUSEMOVE, [1, 0, 0, 0, 0, 0, 0, 0], [70, 0, 60, 0, 0, 0, 0, 0]),
         ((), WM_MOUSEMOVE, [1, 0, 0, 0, 0, 0, 0, 0], [70, 0, 60, 0, 0, 0, 0, 0])])))
     = [Invoke (Caller 0) (Some \<lparr>pt_x = 140, pt_y = 100\<rparr>)]
   \<and> filter is_Invoke (snd (snd (deliver_all
        (makeWin32WindowFullyDraggable 1
           \<lparr>width = 800, height = 600, getWindowSize = None, onDragEnd = Caller 0\<rparr>)
        \<lparr>rc_x = 100, rc_y = 100, rc_height = 600, rc_width = 800\<rparr>
        (((), WM_MOUSEMOVE, [1, 0, 0, 0, 0, 0, 0, 0], [50, 0, 60, 0, 0, 0, 0, 0])
         # [((), WM_MOUSEMOVE, [1, 0, 0, 0, 0, 0, 0, 0], [70, 0, 60, 0, 0, 0, 0, 0]),
            ((), WM_MOUSEMOVE, [1, 0, 0, 0, 0, 0, 0, 0], [70, 0, 60, 0, 0, 0, 0, 0])]
         @ [((), WM_LBUTTONUP, [0, 0, 0, 0, 0, 0, 0, 0], [70, 0, 60, 0, 0, 0, 0, 0])]))))
     = [Invoke (Caller 0) (Some \<lparr>pt_x = 120 + (70 - 50), pt_y = 100 + (60 - 60)\<rparr>)]"
proof -
  have p0: "pressed_move ((), WM_MOUSEMOVE, [1, 0, 0, 0, 0, 0, 0, 0], [50, 0, 60, 0, 0, 0, 0, 0])"
    and p1: "pressed_move ((), WM_MOUSEMOVE, [1, 0, 0, 0, 0, 0, 0, 0], [70, 0, 60, 0, 0, 0, 0, 0])"
    and r: "is_release ((), WM_LBUTTONUP, [0, 0, 0, 0, 0, 0, 0, 0], [70, 0, 60, 0, 0, 0, 0, 0])"
    by (simp_all add: pressed_move_def is_release_def int16le_bytes)
  have n: "2 \<le> moves_since_release
        [((), WM_MOUSEMOVE, [1, 0, 0, 0, 0, 0, 0, 0], [50, 0, 60, 0, 0, 0, 0, 0]),
         ((), WM_MOUSEMOVE, [1, 0, 0, 0, 0, 0, 0, 0], [70, 0, 60, 0, 0, 0, 0, 0]),
         ((), WM_MOUSEMOVE, [1, 0, 0, 0, 0, 0, 0, 0], [70, 0, 60, 0, 0, 0, 0, 0 :: 8 word])]"
    by (simp add: count_eval)
  have c: "cachePosition (fst (deliver_all
        (makeWin32WindowFullyDraggable 1
           \<lparr>width = 800, height = 600, getWindowSize = None, onDragEnd = Caller 0\<rparr>)
        \<lparr>rc_x = 100, rc_y = 100, rc_height = 600, rc_width = 800\<rparr>
        [((), WM_MOUSEMOVE, [1, 0, 0, 0, 0, 0, 0, 0], [50, 0, 60, 0, 0, 0, 0, 0]),
         ((), WM_MOUSEMOVE, [1, 0, 0, 0, 0, 0, 0, 0], [70, 0, 60, 0, 0, 0, 0, 0]),
         ((), WM_MOUSEMOVE, [1, 0, 0, 0, 0, 0, 0, 0], [70, 0, 60, 0, 0, 0, 0, 0])]))
     = Some \<lparr>pt_x = 140, pt_y = 100\<rparr>"
    by (simp add: win32_eval)
  note t = C1_release_semantics
    [of 1 "\<lparr>width = 800, height = 600, getWindowSize = None, onDragEnd = Caller 0\<rparr>"
      "\<lparr>rc_x = 100, rc_y = 100, rc_height = 600, rc_width = 800\<rparr>"
      "[((), WM_MOUSEMOVE, [1, 0, 0, 0, 0, 0, 0, 0], [50, 0, 60, 0, 0, 0, 0, 0]),
        ((), WM_MOUSEMOVE, [1, 0, 0, 0, 0, 0, 0, 0], [70, 0, 60, 0, 0, 0, 0, 0]),
        ((), WM_MOUSEMOVE, [1, 0, 0, 0, 0, 0, 0, 0], [70, 0, 60, 0, 0, 0, 0, 0])]"
      "((), WM_MOUSEMOVE, [1, 0, 0, 0, 0, 0, 0, 0], [50, 0, 60, 0, 0, 0, 0, 0])"
      "[((), WM_MOUSEMOVE, [1, 0, 0, 0, 0, 0, 0, 0], [70, 0, 60, 0, 0, 0, 0, 0]),
        ((), WM_MOUSEMOVE, [1, 0, 0, 0, 0, 0, 0, 0], [70, 0, 60, 0, 0, 0, 0, 0])]"
      "((), WM_LBUTTONUP, [0, 0, 0, 0, 0, 0, 0, 0], [70, 0, 60, 0, 0, 0, 0, 0])"]
  have one: "snd (hook_WM_LBUTTONUP (fst (deliver_all
        (makeWin32WindowFullyDraggable 1
           \<lparr>width = 800, height = 600, getWindowSize = None, onDragEnd = Caller 0\<rparr>)
        \<lparr>rc_x = 100, rc_y = 100, rc_height = 600, rc_width = 800\<rparr>
        [((), WM_MOUSEMOVE, [1, 0, 0, 0, 0, 0, 0, 0], [50, 0, 60, 0, 0, 0, 0, 0]),
         ((), WM_MOUSEMOVE, [1, 0, 0, 0, 0, 0, 0, 0], [70, 0, 60, 0, 0, 0, 0, 0]),
         ((), WM_MOUSEMOVE, [1, 0, 0, 0, 0, 0, 0, 0], [70, 0, 60, 0, 0, 0, 0, 0])])))
     = [Invoke (Caller 0) (Some \<lparr>pt_x = 140, pt_y = 100\<rparr>)]"
    using conjunct1 [OF t] n by (simp only: c if_True IDragOptions.simps)
  have three: "filter is_Invoke (snd (snd (deliver_all
        (makeWin32WindowFullyDraggable 1
           \<lparr>width = 800, height = 600, getWindowSize = None, onDragEnd = Caller 0\<rparr>)
        \<lparr>rc_x = 100, rc_y = 100, rc_height = 600, rc_width = 800\<rparr>
        (((), WM_MOUSEMOVE, [1, 0, 0, 0, 0, 0, 0, 0], [50, 0, 60, 0, 0, 0, 0, 0])
         # [((), WM_MOUSEMOVE, [1, 0, 0, 0, 0, 0, 0, 0], [70, 0, 60, 0, 0, 0, 0, 0]),
            ((), WM_MOUSEMOVE, [1, 0, 0, 0, 0, 0, 0, 0], [70, 0, 60, 0, 0, 0, 0, 0])]
         @ [((), WM_LBUTTONUP, [0, 0, 0, 0, 0, 0, 0, 0], [70, 0, 60, 0, 0, 0, 0, 0])]))))
     = [Invoke (Caller 0) (Some \<lparr>pt_x = 120 + (70 - 50), pt_y = 100 + (60 - 60)\<rparr>)]"
    using conjunct1 [OF mp [OF conjunct2 [OF conjunct2 [OF t]]]] p0 p1 r
    by (simp add: win32_eval pointer_x_def pointer_y_def int16le_bytes)
  show ?thesis
    by (intro conjI p0 p1 r n one three)
qed

subsection \<open>C2\<close>

text \<open>
  C2. After registration, after every release, and after any messages that include no
  qualifying move since the last release, \<open>dragging\<close> is false. A move with the button
  bit set that finds \<open>dragging\<close> false calls nothing and leaves the window where it is:
  it records the pointer as the origin (with the effective size) and sets \<open>dragging\<close>.
  A move with the button bit set that finds \<open>dragging\<close> true calls \<open>setBounds\<close>
  once, with the top-left at the window's current position plus the pointer's offset from
  the origin, on each axis.
\<close>

theorem C2_origin_capture:
  assumes "browserWindow cl = Some bw"
    and "2 \<le> length wParam" and "bit (int16le wParam 0) 0" and "4 \<le> length lParam"
  shows "\<not> dragging (makeWin32WindowFullyDraggable bw opts)
       \<and> \<not> dragging (fst (hook_WM_LBUTTONUP cl))
       \<and> (moves_since_release ms = 0 \<longrightarrow>
            \<not> dragging (fst (deliver_all (makeWin32WindowFullyDraggable bw opts) wb0 ms)))
       \<and> (\<not> dragging cl \<longrightarrow>
            hook_WM_MOUSEMOVE cl env wb wParam lParam =
              Inr (cl\<lparr>dragging := True,
                      initialPos := \<lparr>rc_x = int16le lParam 0, rc_y = int16le lParam 2,
                                     rc_height = sz_height (effective_size (options cl) env),
                                     rc_width = sz_width (effective_size (options cl) env)\<rparr>\<rparr>,
                   wb, []))
       \<and> (dragging cl \<longrightarrow>
            (\<exists>cl' nb. hook_WM_MOUSEMOVE cl env wb wParam lParam = Inr (cl', nb, [SetBounds bw nb])
               \<and> rc_x nb = rc_x wb + (int16le lParam 0 - rc_x (initialPos cl))
               \<and> rc_y nb = rc_y wb + (int16le lParam 2 - rc_y (initialPos cl))))"
proof -
  have h: "hook_WM_MOUSEMOVE cl env wb wParam lParam =
             Inr (move_pressed bw cl env wb (int16le lParam 0) (int16le lParam 2))"
    using hook_move_decoded [OF assms(1,2,4)] assms(3) by simp
  have a: "\<not> dragging (makeWin32WindowFullyDraggable bw opts)"
    by (simp add: makeWin32WindowFullyDraggable_def)
  have b: "\<not> dragging (fst (hook_WM_LBUTTONUP cl))"
    by (simp add: hook_WM_LBUTTONUP_def)
  obtain cl0 wb1 es where
    r: "deliver_all (makeWin32WindowFullyDraggable bw opts) wb0 ms = (cl0, wb1, es)"
    by (cases "deliver_all (makeWin32WindowFullyDraggable bw opts) wb0 ms") auto
  have c: "moves_since_release ms = 0 \<longrightarrow>
            \<not> dragging (fst (deliver_all (makeWin32WindowFullyDraggable bw opts) wb0 ms))"
    using registered_tracks [OF r] by (simp add: r)
  show ?thesis
    using a b c by (simp add: h move_pressed_origin move_pressed_drag)
qed

text \<open>
  The example of the specification: the window is at (100, 100); the move at (50, 60)
  calls nothing, the next move at (70, 60) calls \<open>setBounds\<close> with x = 120.
\<close>

theorem C2_origin_capture_witness:
  "moves_since_release
     [((), WM_LBUTTONUP, [0, 0, 0, 0, 0, 0, 0, 0], [50, 0, 60, 0, 0, 0, 0, 0]),
      ((), WM_MOUSEMOVE, [0, 0, 0, 0, 0, 0, 0, 0], [50, 0, 60, 0, 0, 0, 0, 0 :: 8 word])] = 0
   \<and> \<not> dragging (fst (deliver_all
       (makeWin32WindowFullyDraggable 1
          \<lparr>width = 800, height = 600, getWindowSize = None, onDragEnd = Caller 0\<rparr>)
       \<lparr>rc_x = 100, rc_y = 100, rc_height = 600, rc_width = 800\<rparr>
       [((), WM_LBUTTONUP, [0, 0, 0, 0, 0, 0, 0, 0], [50, 0, 60, 0, 0, 0, 0, 0]),
        ((), WM_MOUSEMOVE, [0, 0, 0, 0, 0, 0, 0, 0], [50, 0, 60, 0, 0, 0, 0, 0])]))
   \<and> hook_WM_MOUSEMOVE
     (makeWin32WindowFullyDraggable 1
        \<lparr>width = 800, height = 600, getWindowSize = None, onDragEnd = Caller 0\<rparr>)
     () \<lparr>rc_x = 100, rc_y = 100, rc_height = 600, rc_width = 800\<rparr>
     [1, 0, 0, 0, 0, 0, 0, 0] [50, 0, 60, 0, 0, 0, 0, 0]
   = Inr (\<lparr>browserWindow = Some 1,
           options = \<lparr>width = 800, height = 600, getWindowSize = None, onDragEnd = Caller 0\<rparr>,
           initialPos = \<lparr>rc_x = 50, rc_y = 60, rc_height = 600, rc_width = 800\<rparr>,
           dragging = True, cachePosition = None\<rparr>,
          \<lparr>rc_x = 100, rc_y = 100, rc_height = 600, rc_width = 800\<rparr>, [])
   \<and> (\<exists>cl' nb.
        hook_WM_MOUSEMOVE
          \<lparr>browserWindow = Some 1,
           options = \<lparr>width = 800, height = 600, getWindowSize = None, onDragEnd = Caller 0\<rparr>,
           initialPos = \<lparr>rc_x = 50, rc_y = 60, rc_height = 600, rc_width = 800\<rparr>,
           dragging = True, cachePosition = None\<rparr>
          () \<lparr>rc_x = 100, rc_y = 100, rc_height = 600, rc_width = 800\<rparr>
          [1, 0, 0, 0, 0, 0, 0, 0] [70, 0, 60, 0, 0, 0, 0, 0]
        = Inr (cl', nb, [SetBounds 1 nb]) \<and> rc_x nb = 120 \<and> rc_y nb = 100)"
proof -
  have w: "2 \<le> length [1, 0, 0, 0, 0, 0, 0, 0 :: 8 word]"
    and b: "bit (int16le [1, 0, 0, 0, 0, 0, 0, 0] 0) 0"
    and l1: "4 \<le> length [50, 0, 60, 0, 0, 0, 0, 0 :: 8 word]"
    and l2: "4 \<le> length [70, 0, 60, 0, 0, 0, 0, 0 :: 8 word]"
    by (simp_all add: int16le_bytes)
  have r: "browserWindow (makeWin32WindowFullyDraggable 1
        \<lparr>width = 800, height = 600, getWindowSize = None, onDragEnd = Caller 0\<rparr>
        :: unit Win32Drag) = Some 1"
    by (simp add: makeWin32WindowFullyDraggable_def)
  have d: "browserWindow (\<lparr>browserWindow = Some 1,
           options = \<lparr>width = 800, height = 600, getWindowSize = None, onDragEnd = Caller 0\<rparr>,
           initialPos = \<lparr>rc_x = 50, rc_y = 60, rc_height = 600, rc_width = 800\<rparr>,
           dragging = True, cachePosition = None\<rparr> :: unit Win32Drag) = Some 1"
    by simp
  have n: "moves_since_release
     [((), WM_LBUTTONUP, [0, 0, 0, 0, 0, 0, 0, 0], [50, 0, 60, 0, 0, 0, 0, 0]),
      ((), WM_MOUSEMOVE, [0, 0, 0, 0, 0, 0, 0, 0], [50, 0, 60, 0, 0, 0, 0, 0 :: 8 word])] = 0"
    by (simp add: count_eval)
  note t1 = C2_origin_capture [OF r w b l1,
      where opts = "\<lparr>width = 800, height = 600, getWindowSize = None, onDragEnd = Caller 0\<rparr>
                    :: unit IDragOptions"
        and env = "()"
        and wb = "\<lparr>rc_x = 100, rc_y = 100, rc_height = 600, rc_width = 800\<rparr>"
        and wb0 = "\<lparr>rc_x = 100, rc_y = 100, rc_height = 600, rc_width = 800\<rparr>"
        and ms = "[((), WM_LBUTTONUP, [0, 0, 0, 0, 0, 0, 0, 0], [50, 0, 60, 0, 0, 0, 0, 0]),
                   ((), WM_MOUSEMOVE, [0, 0, 0, 0, 0, 0, 0, 0], [50, 0, 60, 0, 0, 0, 0, 0])]"]
  note t2 = C2_origin_capture [OF d w b l2,
      where opts = "\<lparr>width = 800, height = 600, getWindowSize = None, onDragEnd = Caller 0\<rparr>
                    :: unit IDragOptions"
        and env = "()"
        and wb = "\<lparr>rc_x = 100, rc_y = 100, rc_height = 600, rc_width = 800\<rparr>"
        and wb0 = "\<lparr>rc_x = 100, rc_y = 100, rc_height = 600, rc_width = 800\<rparr>"
        and ms = "[] :: unit wmsg list"]
  show ?thesis
    using t1 t2 n
    by (simp add: int16le_bytes makeWin32WindowFullyDraggable_def effective_size_def)
qed

subsection \<open>C3\<close>

text \<open>
  C3. After any sequence of messages delivered to a registered window, \<open>dragging\<close> is
  true exactly when a qualifying move has been handled since the last release, and
  \<open>cachePosition\<close> is non-null exactly when two have (the origin and at least one more);
  so \<open>cachePosition\<close> is non-null only while \<open>dragging\<close> is true.
\<close>

theorem C3_drag_session_invariant:
  "(dragging (fst (deliver_all (makeWin32WindowFullyDraggable bw opts) wb ms))
      \<longleftrightarrow> 1 \<le> moves_since_release ms)
   \<and> (cachePosition (fst (deliver_all (makeWin32WindowFullyDraggable bw opts) wb ms)) \<noteq> None
      \<longleftrightarrow> 2 \<le> moves_since_release ms)
   \<and> (cachePosition (fst (deliver_all (makeWin32WindowFullyDraggable bw opts) wb ms)) \<noteq> None
      \<longrightarrow> dragging (fst (deliver_all (makeWin32WindowFullyDraggable bw opts) wb ms)))"
proof -
  obtain cl wb' es where
    r: "deliver_all (makeWin32WindowFullyDraggable bw opts) wb ms = (cl, wb', es)"
    by (cases "deliver_all (makeWin32WindowFullyDraggable bw opts) wb ms") auto
  from registered_tracks [OF r] show ?thesis
    by (auto simp: r)
qed

theorem C3_drag_session_invariant_witness:
  "dragging (fst (deliver_all
      (makeWin32WindowFullyDraggable 1
         \<lparr>width = 800, height = 600, getWindowSize = None, onDragEnd = Caller 0\<rparr>)
      \<lparr>rc_x = 100, rc_y = 100, rc_height = 600, rc_width = 800\<rparr>
      [((), WM_MOUSEMOVE, [1, 0, 0, 0, 0, 0, 0, 0], [50, 0, 60, 0, 0, 0, 0, 0]),
       ((), WM_MOUSEMOVE, [1, 0, 0, 0, 0, 0, 0, 0], [70, 0, 60, 0, 0, 0, 0, 0])]))
   \<and> cachePosition (fst (deliver_all
      (makeWin32WindowFullyDraggable 1
         \<lparr>width = 800, height = 600, getWindowSize = None, onDragEnd = Caller 0\<rparr>)
      \<lparr>rc_x = 100, rc_y = 100, rc_height = 600, rc_width = 800\<rparr>
      [((), WM_MOUSEMOVE, [1, 0, 0, 0, 0, 0, 0, 0], [50, 0, 60, 0, 0, 0, 0, 0]),
       ((), WM_MOUSEMOVE, [1, 0, 0, 0, 0, 0, 0, 0], [70, 0, 60, 0, 0, 0, 0, 0])]))
     = Some \<lparr>pt_x = 120, pt_y = 100\<rparr>
   \<and> moves_since_release
      [((), WM_MOUSEMOVE, [1, 0, 0, 0, 0, 0, 0, 0], [50, 0, 60, 0, 0, 0, 0, 0]),
       ((), WM_MOUSEMOVE, [1, 0, 0, 0, 0, 0, 0, 0], [70, 0, 60, 0, 0, 0, 0, 0])] = 2"
proof -
  have c: "moves_since_release
      [((), WM_MOUSEMOVE, [1, 0, 0, 0, 0, 0, 0, 0], [50, 0, 60, 0, 0, 0, 0, 0]),
       ((), WM_MOUSEMOVE, [1, 0, 0, 0, 0, 0, 0, 0], [70, 0, 60, 0, 0, 0, 0, 0 :: 8 word])] = 2"
    by (simp add: count_eval)
  have p: "cachePosition (fst (deliver_all
      (makeWin32WindowFullyDraggable 1
         \<lparr>width = 800, height = 600, getWindowSize = None, onDragEnd = Caller 0\<rparr>)
      \<lparr>rc_x = 100, rc_y = 100, rc_height = 600, rc_width = 800\<rparr>
      [((), WM_MOUSEMOVE, [1, 0, 0, 0, 0, 0, 0, 0], [50, 0, 60, 0, 0, 0, 0, 0]),
       ((), WM_MOUSEMOVE, [1, 0, 0, 0, 0, 0, 0, 0], [70, 0, 60, 0, 0, 0, 0, 0])]))
     = Some \<lparr>pt_x = 120, pt_y = 100\<rparr>"
    by (simp add: win32_eval)
  note t = C3_drag_session_invariant
    [of 1 "\<lparr>width = 800, height = 600, getWindowSize = None, onDragEnd = Caller 0\<rparr>"
      "\<lparr>rc_x = 100, rc_y = 100, rc_height = 600, rc_width = 800\<rparr>"
      "[((), WM_MOUSEMOVE, [1, 0, 0, 0, 0, 0, 0, 0], [50, 0, 60, 0, 0, 0, 0, 0]),
        ((), WM_MOUSEMOVE, [1, 0, 0, 0, 0, 0, 0, 0], [70, 0, 60, 0, 0, 0, 0, 0])]"]
  have d: "dragging (fst (deliver_all
      (makeWin32WindowFullyDraggable 1
         \<lparr>width = 800, height = 600, getWindowSize = None, onDragEnd = Caller 0\<rparr>)
      \<lparr>rc_x = 100, rc_y = 100, rc_height = 600, rc_width = 800\<rparr>
      [((), WM_MOUSEMOVE, [1, 0, 0, 0, 0, 0, 0, 0], [50, 0, 60, 0, 0, 0, 0, 0]),
       ((), WM_MOUSEMOVE, [1, 0, 0, 0, 0, 0, 0, 0], [70, 0, 60, 0, 0, 0, 0, 0])]))"
    using conjunct2 [OF conjunct2 [OF t]] p by simp
  show ?thesis
    by (intro conjI d p c)
qed

subsection \<open>C4\<close>

text \<open>
  C4. The window is registered with a wrapper around the caller's function, and no timer
  is pending. A first message and a burst of further messages, each less than 300 ms
  after the one before, invoke nothing while they arrive. If less than 300 ms pass after
  the last message, still nothing is invoked; once 300 ms or more have passed, the
  caller's function has been invoked exactly once, with the position of the last message.
\<close>

theorem C4_debounce_collapsing:
  assumes "registeredWindows rt w = Some r" and "onDragEnd (objects rt ! r) = Debounced c"
    and "wraps rt c f" and "quiet rt"
    and "\<forall>(gap, env, p)\<in>set rest. gap < 300"
  shows "filter is_Invoke
           (snd (run rt (Message env0 (Some w) (Some p0) # burst w rest))) = []
       \<and> (d < 300 \<longrightarrow>
            snd (run rt (Message env0 (Some w) (Some p0) # burst w rest @ [Wait d])) =
              snd (run rt (Message env0 (Some w) (Some p0) # burst w rest)))
       \<and> (300 \<le> d \<longrightarrow>
            snd (run rt (Message env0 (Some w) (Some p0) # burst w rest @ [Wait d])) =
              snd (run rt (Message env0 (Some w) (Some p0) # burst w rest))
              @ [Invoke (Caller f) (Some (last (p0 # map (snd \<circ> snd) rest)))])"
proof -
  let ?m = "Message env0 (Some w) (Some p0)"
  let ?a = "rt\<lparr>wrappers := (wrappers rt)
                 [c := (wrappers rt ! c)\<lparr>db_pending := Some (clock rt + 300, Some p0)\<rparr>]\<rparr>"
  let ?sb = "SetBounds w
               \<lparr>rc_x = pt_x p0, rc_y = pt_y p0,
                rc_height = sz_height (effective_size (objects rt ! r) env0),
                rc_width = sz_width (effective_size (objects rt ! r) env0)\<rparr>"
  from assms(3) have c: "c < length (wrappers rt)" and wt: "db_wait (wrappers rt ! c) = 300"
    by (simp_all add: wraps_def)
  have s: "step rt ?m = (?a, [?sb])"
    using message_arms [OF assms(1,2), of env0 p0] wt by simp
  obtain rt1 es1 where b: "run ?a (burst w rest) = (rt1, es1)"
    by (cases "run ?a (burst w rest)") auto
  have k: "wraps rt1 c f \<and> others_idle rt1 c
       \<and> db_pending (wrappers rt1 ! c) = Some (clock rt1 + 300, Some (last (p0 # map (snd \<circ> snd) rest)))
       \<and> filter is_Invoke es1 = []"
    using assms c b
    by (intro burst_keeps_pending [of ?a w r c f p0 rest rt1 es1])
      (simp_all add: wraps_def others_idle_def quiet_iff)
  have all: "run rt (?m # burst w rest) = (rt1, ?sb # es1)"
    using s b by simp
  have fin: "run rt (?m # burst w rest @ [Wait d]) = (fst (elapse d rt1), ?sb # es1 @ snd (elapse d rt1))"
    using run_append [of rt "?m # burst w rest" "[Wait d]"] all
    by (simp add: case_prod_beta)
  have early: "elapse d rt1 = (rt1\<lparr>clock := clock rt1 + d\<rparr>, [])" if "d < 300"
    using k that
    by (intro elapse_early [of _ c f "clock rt1 + 300" "Some (last (p0 # map (snd \<circ> snd) rest))"])
      simp_all
  have late: "snd (elapse d rt1) = [Invoke (Caller f) (Some (last (p0 # map (snd \<circ> snd) rest)))]"
    if "300 \<le> d"
    using k that
      elapse_due [of rt1 c f "clock rt1 + 300" "Some (last (p0 # map (snd \<circ> snd) rest))" d]
    by simp
  show ?thesis
    unfolding fin all using k early late by (cases "d < 300") simp_all
qed

text \<open>
  The example of the specification: a window registered on a fresh main process, five
  messages 50 ms apart, then 300 ms of quiet.
\<close>

theorem C4_debounce_collapsing_witness:
  "registeredWindows
     (setWindowDraggable ''linux'' 1 0
        (boot [\<lparr>width = 800, height = 600, getWindowSize = None, onDragEnd = Caller 0\<rparr>])
      :: unit runtime) 1 = Some 0
   \<and> onDragEnd (objects
       (setWindowDraggable ''linux'' 1 0
          (boot [\<lparr>width = 800, height = 600, getWindowSize = None, onDragEnd = Caller 0\<rparr>])
        :: unit runtime) ! 0) = Debounced 0
   \<and> wraps
       (setWindowDraggable ''linux'' 1 0
          (boot [\<lparr>width = 800, height = 600, getWindowSize = None, onDragEnd = Caller 0\<rparr>])
        :: unit runtime) 0 0
   \<and> quiet
       (setWindowDraggable ''linux'' 1 0
          (boot [\<lparr>width = 800, height = 600, getWindowSize = None, onDragEnd = Caller 0\<rparr>])
        :: unit runtime)
   \<and> filter is_Invoke (snd (run
       (setWindowDraggable ''linux'' 1 0
          (boot [\<lparr>width = 800, height = 600, getWindowSize = None, onDragEnd = Caller 0\<rparr>]))
       (Message () (Some 1) (Some \<lparr>pt_x = 10, pt_y = 10\<rparr>)
        # burst 1 [(50, (), \<lparr>pt_x = 20, pt_y = 10\<rparr>), (50, (), \<lparr>pt_x = 30, pt_y = 10\<rparr>),
                   (50, (), \<lparr>pt_x = 40, pt_y = 10\<rparr>), (50, (), \<lparr>pt_x = 50, pt_y = 10\<rparr>)]
        @ [Wait 300])))
     = [Invoke (Caller 0) (Some \<lparr>pt_x = 50, pt_y = 10\<rparr>)]"
proof -
  let ?rt = "setWindowDraggable ''linux'' 1 0
        (boot [\<lparr>width = 800, height = 600, getWindowSize = None, onDragEnd = Caller 0\<rparr>])
      :: unit runtime"
  let ?rest = "[(50, (), \<lparr>pt_x = 20, pt_y = 10\<rparr>), (50, (), \<lparr>pt_x = 30, pt_y = 10\<rparr>),
                (50, (), \<lparr>pt_x = 40, pt_y = 10\<rparr>), (50, (), \<lparr>pt_x = 50, pt_y = 10\<rparr>)]
               :: (nat \<times> unit \<times> IPoint) list"
  let ?b = "boot [\<lparr>width = 800, height = 600, getWindowSize = None, onDragEnd = Caller 0\<rparr>]
      :: unit runtime"
  have p: "''linux'' \<noteq> ''win32''" "0 < length (objects ?b)"
    "onDragEnd (objects ?b ! 0) = Caller 0"
    and q: "quiet ?b" and n: "length (wrappers ?b) = 0"
    by (simp_all add: boot_def quiet_def)
  have h1: "registeredWindows ?rt 1 = Some 0"
    using registration_wraps(1) [OF p] .
  have h2: "onDragEnd (objects ?rt ! 0) = Debounced 0"
    using registration_wraps(2) [OF p, of 1] by (simp only: n)
  have h3: "wraps ?rt 0 0"
    using registration_wraps(3) [OF p, of 1] by (simp only: n)
  have h4: "quiet ?rt"
    using registration_wraps(4) [OF p q] .
  have h5: "\<forall>(gap, env, p)\<in>set ?rest. gap < 300"
    by simp
  note t = C4_debounce_collapsing [OF h1 h2 h3 h4 h5, of "()" "\<lparr>pt_x = 10, pt_y = 10\<rparr>" 300]
  have "filter is_Invoke (snd (run ?rt
       (Message () (Some 1) (Some \<lparr>pt_x = 10, pt_y = 10\<rparr>) # burst 1 ?rest @ [Wait 300])))
     = [Invoke (Caller 0) (Some \<lparr>pt_x = 50, pt_y = 10\<rparr>)]"
    using conjunct1 [OF t] conjunct2 [OF conjunct2 [OF t]] by simp
  then show ?thesis
    by (intro conjI h1 h2 h3 h4)
qed

subsection \<open>C5\<close>

text \<open>
  C5, as the code has it. The close notification removes the window from the registry.
  From then on a message attributed to the window (or to no window) calls nothing,
  changes nothing and raises nothing. The notification does not touch the timers: with
  such messages, further notifications and time passing, exactly those calls happen that
  the timers pending at the notification would have made anyway.
\<close>

theorem C5_cleanup_on_close:
  "registeredWindows (on_closed w rt) w = None
   \<and> on_set_window_draggable (on_closed w rt) env (Some w) position = Inr (on_closed w rt, [])
   \<and> ((\<forall>ev\<in>set evs. after_close w ev) \<longrightarrow>
        run (on_closed w rt) evs =
          (on_closed w (fst (elapse (waited evs) rt)), snd (elapse (waited evs) rt)))"
proof -
  have a: "registeredWindows (on_closed w rt) w = None"
    by (simp add: on_closed_def)
  have b: "on_set_window_draggable (on_closed w rt) env (Some w) position = Inr (on_closed w rt, [])"
    using a by (rule message_unregistered)
  have c: "run (on_closed w rt) evs =
          (on_closed w (fst (elapse (waited evs) rt)), snd (elapse (waited evs) rt))"
    if "\<forall>ev\<in>set evs. after_close w ev"
  proof -
    have "run (on_closed w rt) evs = elapse (waited evs) (on_closed w rt)"
      using a that by (rule run_after_close)
    also have "\<dots> = (on_closed w (fst (elapse (waited evs) rt)), snd (elapse (waited evs) rt))"
      by (simp add: on_closed_def elapse_registry elapse_keeps_registry)
    finally show ?thesis .
  qed
  from a b c show ?thesis
    by blast
qed

text \<open>
  The claim as stated fails: a window is registered, one message arrives, the window
  closes, and 300 ms later the caller's \<open>onDragEnd\<close> is invoked all the same.
\<close>

theorem C5_pending_timer_counterexample:
  "snd (run
     (setWindowDraggable ''linux'' 1 0
        (boot [\<lparr>width = 800, height = 600, getWindowSize = None, onDragEnd = Caller 0\<rparr>]))
     [Message () (Some 1) (Some \<lparr>pt_x = 10, pt_y = 20\<rparr>), Closed 1, Wait 300])
   = [SetBounds 1 \<lparr>rc_x = 10, rc_y = 20, rc_height = 600, rc_width = 800\<rparr>,
      Invoke (Caller 0) (Some \<lparr>pt_x = 10, pt_y = 20\<rparr>)]"
proof -
  let ?rt = "setWindowDraggable ''linux'' 1 0
        (boot [\<lparr>width = 800, height = 600, getWindowSize = None, onDragEnd = Caller 0\<rparr>])
      :: unit runtime"
  have h: "registeredWindows ?rt 1 = Some 0" "onDragEnd (objects ?rt ! 0) = Debounced 0"
    "wraps ?rt 0 0" "quiet ?rt"
    by (simp_all add: ipc_eval wraps_def quiet_def)
  have o: "effective_size (objects ?rt ! 0) () = \<lparr>sz_width = 800, sz_height = 600\<rparr>"
    by (simp add: ipc_eval effective_size_def)
  show ?thesis
    by (simp only: timer_survives_close [OF h] snd_conv o IPoint.simps ISize.simps)
qed

text \<open>
  A window is registered and one message arrives; then the window closes. A later
  message attributed to it does nothing, and after 300 ms the pending call is made.
\<close>

theorem C5_cleanup_on_close_witness:
  "registeredWindows
     (on_closed 1 (fst (step
        (setWindowDraggable ''linux'' 1 0
           (boot [\<lparr>width = 800, height = 600, getWindowSize = None, onDragEnd = Caller 0\<rparr>]))
        (Message () (Some 1) (Some \<lparr>pt_x = 10, pt_y = 20\<rparr>))))) 1 = None
   \<and> after_close 1 (Message () (Some 1) (Some \<lparr>pt_x = 30, pt_y = 40\<rparr>))
   \<and> after_close 1 (Wait 300 :: unit event)
   \<and> snd (run
       (on_closed 1 (fst (step
          (setWindowDraggable ''linux'' 1 0
             (boot [\<lparr>width = 800, height = 600, getWindowSize = None, onDragEnd = Caller 0\<rparr>]))
          (Message () (Some 1) (Some \<lparr>pt_x = 10, pt_y = 20\<rparr>)))))
       [Message () (Some 1) (Some \<lparr>pt_x = 30, pt_y = 40\<rparr>), Wait 300])
     = [Invoke (Caller 0) (Some \<lparr>pt_x = 10, pt_y = 20\<rparr>)]"
proof -
  let ?rt = "fst (step
        (setWindowDraggable ''linux'' 1 0
           (boot [\<lparr>width = 800, height = 600, getWindowSize = None, onDragEnd = Caller 0\<rparr>]))
        (Message () (Some 1) (Some \<lparr>pt_x = 10, pt_y = 20\<rparr>))) :: unit runtime"
  let ?evs = "[Message () (Some 1) (Some \<lparr>pt_x = 30, pt_y = 40\<rparr>), Wait 300] :: unit event list"
  note t = C5_cleanup_on_close [of 1 ?rt "()" None ?evs]
  have a1: "after_close 1 (Message () (Some 1) (Some \<lparr>pt_x = 30, pt_y = 40\<rparr>))"
    and a2: "after_close 1 (Wait 300 :: unit event)"
    by simp_all
  then have a: "\<forall>ev\<in>set ?evs. after_close 1 ev"
    by simp
  have w: "waited ?evs = 300"
    by simp
  have "elapse 300 ?rt =
          (?rt\<lparr>clock := clock ?rt + 300,
               wrappers := (wrappers ?rt)[0 := (wrappers ?rt ! 0)\<lparr>db_pending := None\<rparr>]\<rparr>,
           [Invoke (Caller 0) (Some \<lparr>pt_x = 10, pt_y = 20\<rparr>)])"
    by (rule elapse_due [of ?rt 0 0 300 "Some \<lparr>pt_x = 10, pt_y = 20\<rparr>" 300])
      (simp_all add: ipc_eval wraps_def others_idle_def)
  then have e: "snd (elapse 300 ?rt) = [Invoke (Caller 0) (Some \<lparr>pt_x = 10, pt_y = 20\<rparr>)]"
    by (simp only: snd_conv)
  have r: "snd (run (on_closed 1 ?rt) ?evs) = [Invoke (Caller 0) (Some \<lparr>pt_x = 10, pt_y = 20\<rparr>)]"
    using mp [OF conjunct2 [OF conjunct2 [OF t]] a] by (simp only: snd_conv w e)
  show ?thesis
    by (intro conjI conjunct1 [OF t] a1 a2 r)
qed

subsection \<open>C6\<close>

text \<open>
  C6. In a move, the button word is the signed 16-bit little-endian integer at offset 0
  of \<open>wParam\<close>, and the pointer is the pair of signed 16-bit little-endian integers at
  offsets 0 (x) and 2 (y) of \<open>lParam\<close>. What the hook does depends on \<open>wParam\<close> only
  through bit 0 of that word, which is bit 0 of its first byte: clear, nothing happens;
  set, the rest of the hook runs on the decoded pointer.
\<close>

theorem C6_coordinate_decoding:
  assumes "browserWindow cl = Some bw" and "2 \<le> length wParam" and "4 \<le> length lParam"
  shows "readInt16LE wParam 0 = Inr (int16le wParam 0)
       \<and> readInt16LE lParam 0 = Inr (int16le lParam 0)
       \<and> readInt16LE lParam 2 = Inr (int16le lParam 2)
       \<and> hook_WM_MOUSEMOVE cl env wb wParam lParam =
           Inr (if bit (int16le wParam 0) 0
                then move_pressed bw cl env wb (int16le lParam 0) (int16le lParam 2)
                else (cl, wb, []))
       \<and> (bit (int16le wParam 0) 0 = bit (wParam ! 0) 0)"
proof -
  have w: "readInt16LE wParam 0 = Inr (int16le wParam 0)"
    using assms(2) by (intro readInt16LE_int16le) simp
  have x: "readInt16LE lParam 0 = Inr (int16le lParam 0)"
    using assms(3) by (intro readInt16LE_int16le) simp
  have y: "readInt16LE lParam 2 = Inr (int16le lParam 2)"
    using assms(3) by (intro readInt16LE_int16le) simp
  show ?thesis
    using w x y hook_move_decoded [OF assms] bit0_int16le [of wParam 0] by simp
qed

theorem C6_coordinate_decoding_witness:
  "browserWindow
     \<lparr>browserWindow = Some 1,
      options = \<lparr>width = 800, height = 600, getWindowSize = None, onDragEnd = Caller 0\<rparr>,
      initialPos = \<lparr>rc_x = 50, rc_y = 60, rc_height = 600, rc_width = 800\<rparr>,
      dragging = True, cachePosition = None\<rparr> = Some 1
   \<and> 2 \<le> length [1, 0, 0, 0, 0, 0, 0, 0 :: 8 word]
   \<and> 4 \<le> length [246, 255, 70, 0, 0, 0, 0, 0 :: 8 word]
   \<and> readInt16LE [246, 255, 70, 0, 0, 0, 0, 0] 0 = Inr (- 10)
   \<and> readInt16LE [246, 255, 70, 0, 0, 0, 0, 0] 2 = Inr 70
   \<and> hook_WM_MOUSEMOVE
       \<lparr>browserWindow = Some 1,
        options = \<lparr>width = 800, height = 600, getWindowSize = None, onDragEnd = Caller 0\<rparr>,
        initialPos = \<lparr>rc_x = 50, rc_y = 60, rc_height = 600, rc_width = 800\<rparr>,
        dragging = True, cachePosition = None\<rparr>
       () \<lparr>rc_x = 100, rc_y = 100, rc_height = 600, rc_width = 800\<rparr>
       [1, 0, 0, 0, 0, 0, 0, 0] [246, 255, 70, 0, 0, 0, 0, 0]
     = Inr (\<lparr>browserWindow = Some 1,
        options = \<lparr>width = 800, height = 600, getWindowSize = None, onDragEnd = Caller 0\<rparr>,
        initialPos = \<lparr>rc_x = 50, rc_y = 60, rc_height = 600, rc_width = 800\<rparr>,
        dragging = True, cachePosition = Some \<lparr>pt_x = 40, pt_y = 110\<rparr>\<rparr>,
       \<lparr>rc_x = 40, rc_y = 110, rc_height = 600, rc_width = 800\<rparr>,
       [SetBounds 1 \<lparr>rc_x = 40, rc_y = 110, rc_height = 600, rc_width = 800\<rparr>])"
  using C6_coordinate_decoding
    [of "\<lparr>browserWindow = Some 1,
      options = \<lparr>width = 800, height = 600, getWindowSize = None, onDragEnd = Caller 0\<rparr>,
      initialPos = \<lparr>rc_x = 50, rc_y = 60, rc_height = 600, rc_width = 800\<rparr>,
      dragging = True, cachePosition = None\<rparr>" 1
      "[1, 0, 0, 0, 0, 0, 0, 0]" "[246, 255, 70, 0, 0, 0, 0, 0]"
      "()" "\<lparr>rc_x = 100, rc_y = 100, rc_height = 600, rc_width = 800\<rparr>"]
  by (simp add: int16le_bytes move_pressed_drag)

subsection \<open>C7\<close>

text \<open>
  C7. Strategy A: the origin move stores the effective size of that moment in
  \<open>initialPos\<close>, and every \<open>setBounds\<close> until the next release uses that stored size,
  whatever \<open>getWindowSize\<close> would return by then. Strategy B: a message from a
  registered window calls \<open>setBounds\<close> once, with the message's x and y and the
  effective size of the moment the message is handled.
\<close>

theorem C7_effective_size:
  "(browserWindow cl = Some bw \<and> \<not> dragging cl \<and> pressed_move m0
     \<and> (\<forall>m\<in>set ms. \<not> is_release m) \<longrightarrow>
      rc_width (initialPos (fst (deliver cl wb m0))) = sz_width (effective_size (options cl) (fst m0))
      \<and> rc_height (initialPos (fst (deliver cl wb m0))) = sz_height (effective_size (options cl) (fst m0))
      \<and> (\<forall>w b. SetBounds w b \<in> set (snd (snd (deliver_all cl wb (m0 # ms)))) \<longrightarrow>
            rc_width b = sz_width (effective_size (options cl) (fst m0))
            \<and> rc_height b = sz_height (effective_size (options cl) (fst m0))))
   \<and> (registeredWindows rt w = Some r \<longrightarrow>
        (\<exists>rt' es. on_set_window_draggable rt env (Some w) (Some p) =
            Inr (rt', SetBounds w
                   \<lparr>rc_x = pt_x p, rc_y = pt_y p,
                    rc_height = sz_height (effective_size (objects rt ! r) env),
                    rc_width = sz_width (effective_size (objects rt ! r) env)\<rparr> # es)
          \<and> filter is_SetBounds es = []))"
proof -
  have a: "rc_width (initialPos (fst (deliver cl wb m0))) = sz_width (effective_size (options cl) (fst m0))
      \<and> rc_height (initialPos (fst (deliver cl wb m0))) = sz_height (effective_size (options cl) (fst m0))
      \<and> (\<forall>w b. SetBounds w b \<in> set (snd (snd (deliver_all cl wb (m0 # ms)))) \<longrightarrow>
            rc_width b = sz_width (effective_size (options cl) (fst m0))
            \<and> rc_height b = sz_height (effective_size (options cl) (fst m0)))"
    if h: "browserWindow cl = Some bw" "\<not> dragging cl" "pressed_move m0"
      "\<forall>m\<in>set ms. \<not> is_release m"
  proof -
    let ?c = "cl\<lparr>dragging := True,
                 initialPos := \<lparr>rc_x = pointer_x m0, rc_y = pointer_y m0,
                                rc_height = sz_height (effective_size (options cl) (fst m0)),
                                rc_width = sz_width (effective_size (options cl) (fst m0))\<rparr>\<rparr>"
    have d: "deliver cl wb m0 = (?c, wb, [])"
      using h(1,2,3) by (simp add: deliver_pressed move_pressed_origin)
    obtain cl2 wb2 es2 where r: "deliver_all ?c wb ms = (cl2, wb2, es2)"
      by (cases "deliver_all ?c wb ms") auto
    have c: "browserWindow ?c = Some bw" "dragging ?c"
      using h(1) by simp_all
    from session_size [OF c h(4) r] show ?thesis
      by (simp add: d r)
  qed
  have b: "\<exists>rt' es. on_set_window_draggable rt env (Some w) (Some p) =
            Inr (rt', SetBounds w
                   \<lparr>rc_x = pt_x p, rc_y = pt_y p,
                    rc_height = sz_height (effective_size (objects rt ! r) env),
                    rc_width = sz_width (effective_size (objects rt ! r) env)\<rparr> # es)
          \<and> filter is_SetBounds es = []"
    if "registeredWindows rt w = Some r"
    using message_registered [OF that, of env p] call_effects by blast
  from a b show ?thesis
    by blast
qed

text \<open>
  Here \<open>getWindowSize\<close> returns a width that grows with the environment (a number).
  Strategy A: the origin is handled in environment 0 and the next move in environment 7;
  \<open>setBounds\<close> gets the width of environment 0. Strategy B: the message is handled in
  environment 7 and \<open>setBounds\<close> gets the width of environment 7.
\<close>

theorem C7_effective_size_witness:
  "browserWindow (makeWin32WindowFullyDraggable 1
      \<lparr>width = 1, height = 1,
       getWindowSize = Some (\<lambda>n. \<lparr>sz_width = 800 + int n, sz_height = 600\<rparr>),
       onDragEnd = Caller 0\<rparr>) = Some 1
   \<and> \<not> dragging (makeWin32WindowFullyDraggable 1
      \<lparr>width = 1, height = 1,
       getWindowSize = Some (\<lambda>n. \<lparr>sz_width = 800 + int n, sz_height = 600\<rparr>),
       onDragEnd = Caller 0\<rparr>)
   \<and> pressed_move (0::nat, WM_MOUSEMOVE, [1, 0, 0, 0, 0, 0, 0, 0], [50, 0, 60, 0, 0, 0, 0, 0])
   \<and> \<not> is_release (7::nat, WM_MOUSEMOVE, [1, 0, 0, 0, 0, 0, 0, 0], [70, 0, 60, 0, 0, 0, 0, 0])
   \<and> snd (snd (deliver_all
       (makeWin32WindowFullyDraggable 1
          \<lparr>width = 1, height = 1,
           getWindowSize = Some (\<lambda>n. \<lparr>sz_width = 800 + int n, sz_height = 600\<rparr>),
           onDragEnd = Caller 0\<rparr>)
       \<lparr>rc_x = 100, rc_y = 100, rc_height = 600, rc_width = 800\<rparr>
       [(0, WM_MOUSEMOVE, [1, 0, 0, 0, 0, 0, 0, 0], [50, 0, 60, 0, 0, 0, 0, 0]),
        (7, WM_MOUSEMOVE, [1, 0, 0, 0, 0, 0, 0, 0], [70, 0, 60, 0, 0, 0, 0, 0])]))
     = [SetBounds 1 \<lparr>rc_x = 120, rc_y = 100, rc_height = 600, rc_width = 800\<rparr>]
   \<and> registeredWindows
       (setWindowDraggable ''linux'' 1 0
          (boot [\<lparr>width = 1, height = 1,
                  getWindowSize = Some (\<lambda>n. \<lparr>sz_width = 800 + int n, sz_height = 600\<rparr>),
                  onDragEnd = Caller 0\<rparr>])) 1 = Some 0
   \<and> snd (step
       (setWindowDraggable ''linux'' 1 0
          (boot [\<lparr>width = 1, height = 1,
                  getWindowSize = Some (\<lambda>n. \<lparr>sz_width = 800 + int n, sz_height = 600\<rparr>),
                  onDragEnd = Caller 0\<rparr>]))
       (Message 7 (Some 1) (Some \<lparr>pt_x = 10, pt_y = 20\<rparr>)))
     = [SetBounds 1 \<lparr>rc_x = 10, rc_y = 20, rc_height = 600, rc_width = 807\<rparr>]"
  using C7_effective_size
    [of "makeWin32WindowFullyDraggable 1
          \<lparr>width = 1, height = 1,
           getWindowSize = Some (\<lambda>n. \<lparr>sz_width = 800 + int n, sz_height = 600\<rparr>),
           onDragEnd = Caller 0\<rparr>" 1
      "(0, WM_MOUSEMOVE, [1, 0, 0, 0, 0, 0, 0, 0], [50, 0, 60, 0, 0, 0, 0, 0])"
      "[(7, WM_MOUSEMOVE, [1, 0, 0, 0, 0, 0, 0, 0], [70, 0, 60, 0, 0, 0, 0, 0])]"
      "\<lparr>rc_x = 100, rc_y = 100, rc_height = 600, rc_width = 800\<rparr>"
      "setWindowDraggable ''linux'' 1 0
          (boot [\<lparr>width = 1, height = 1,
                  getWindowSize = Some (\<lambda>n. \<lparr>sz_width = 800 + int n, sz_height = 600\<rparr>),
                  onDragEnd = Caller 0\<rparr>])"
      1 0 7 "\<lparr>pt_x = 10, pt_y = 20\<rparr>"]
  by (simp add: win32_eval ipc_eval pressed_move_def is_release_def int16le_bytes)

subsection \<open>C8\<close>

text \<open>
  C8. A move whose primary-button bit is clear does nothing: the hook returns without
  raising, calls neither \<open>setBounds\<close> nor \<open>onDragEnd\<close>, and leaves \<open>dragging\<close>,
  \<open>cachePosition\<close>, \<open>initialPos\<close> (every variable of the closure) and the window
  as they were, whatever \<open>dragging\<close> is and whatever \<open>lParam\<close> holds.
\<close>

theorem C8_released_move_is_noop:
  assumes "2 \<le> length wParam" and "\<not> bit (int16le wParam 0) 0"
  shows "hook_WM_MOUSEMOVE cl env wb wParam lParam = Inr (cl, wb, [])
       \<and> deliver cl wb (env, WM_MOUSEMOVE, wParam, lParam) = (cl, wb, [])"
proof -
  have h: "hook_WM_MOUSEMOVE cl env wb wParam lParam = Inr (cl, wb, [])"
    using assms by (rule hook_move_released)
  then show ?thesis
    by (simp add: deliver_def codes_differ)
qed

theorem C8_released_move_is_noop_witness:
  "2 \<le> length [0, 0, 0, 0, 0, 0, 0, 0 :: 8 word]
   \<and> \<not> bit (int16le [0, 0, 0, 0, 0, 0, 0, 0] 0) 0
   \<and> hook_WM_MOUSEMOVE
     \<lparr>browserWindow = Some 1,
      options = \<lparr>width = 800, height = 600, getWindowSize = None, onDragEnd = Caller 0\<rparr>,
      initialPos = \<lparr>rc_x = 50, rc_y = 60, rc_height = 600, rc_width = 800\<rparr>,
      dragging = True,
      cachePosition = Some \<lparr>pt_x = 120, pt_y = 100\<rparr>\<rparr>
     () \<lparr>rc_x = 120, rc_y = 100, rc_height = 600, rc_width = 800\<rparr>
     [0, 0, 0, 0, 0, 0, 0, 0] [90, 0, 60, 0, 0, 0, 0, 0]
   = Inr (\<lparr>browserWindow = Some 1,
      options = \<lparr>width = 800, height = 600, getWindowSize = None, onDragEnd = Caller 0\<rparr>,
      initialPos = \<lparr>rc_x = 50, rc_y = 60, rc_height = 600, rc_width = 800\<rparr>,
      dragging = True,
      cachePosition = Some \<lparr>pt_x = 120, pt_y = 100\<rparr>\<rparr>,
     \<lparr>rc_x = 120, rc_y = 100, rc_height = 600, rc_width = 800\<rparr>, [])"
proof -
  have a: "2 \<le> length [0, 0, 0, 0, 0, 0, 0, 0 :: 8 word]" by simp
  have b: "\<not> bit (int16le [0, 0, 0, 0, 0, 0, 0, 0] 0) 0"
    by (simp add: int16le_def)
  note c = conjunct1 [OF C8_released_move_is_noop [OF a b]]
  show ?thesis
    by (intro conjI a b c)
qed

subsection \<open>C9\<close>

text \<open>
  C9. A message whose sender is a window that is not in the registry (or no window at
  all) calls nothing, changes nothing and raises nothing, whatever its payload.
\<close>

theorem C9_unregistered_ignored:
  assumes "registeredWindows rt w = None"
  shows "on_set_window_draggable rt env (Some w) position = Inr (rt, [])
       \<and> step rt (Message env (Some w) position) = (rt, [])"
  using assms by (simp add: message_unregistered)

theorem C9_unregistered_ignored_witness:
  "registeredWindows
     (setWindowDraggable ''linux'' 2 0
        (boot [\<lparr>width = 800, height = 600, getWindowSize = None, onDragEnd = Caller 0\<rparr>])
      :: unit runtime) 5 = None
   \<and> on_set_window_draggable
       (setWindowDraggable ''linux'' 2 0
          (boot [\<lparr>width = 800, height = 600, getWindowSize = None, onDragEnd = Caller 0\<rparr>]))
       () (Some 5) (Some \<lparr>pt_x = 10, pt_y = 20\<rparr>)
     = Inr (setWindowDraggable ''linux'' 2 0
          (boot [\<lparr>width = 800, height = 600, getWindowSize = None, onDragEnd = Caller 0\<rparr>]), [])
   \<and> on_set_window_draggable
       (setWindowDraggable ''linux'' 2 0
          (boot [\<lparr>width = 800, height = 600, getWindowSize = None, onDragEnd = Caller 0\<rparr>]))
       () (Some 5) None
     = Inr (setWindowDraggable ''linux'' 2 0
          (boot [\<lparr>width = 800, height = 600, getWindowSize = None, onDragEnd = Caller 0\<rparr>]), [])"
proof -
  have a: "registeredWindows
     (setWindowDraggable ''linux'' 2 0
        (boot [\<lparr>width = 800, height = 600, getWindowSize = None, onDragEnd = Caller 0\<rparr>])
      :: unit runtime) 5 = None"
    by (simp add: setWindowDraggable_def boot_def Let_def)
  show ?thesis
    by (intro conjI a conjunct1 [OF C9_unregistered_ignored [OF a]])
qed

subsection \<open>C10\<close>

text \<open>
  C10. Whatever messages are delivered, in whatever state of the closure, \<open>onDragEnd\<close>
  is never called with null.
\<close>

theorem C10_never_null:
  "Invoke cb None \<notin> set (snd (snd (deliver_all cl wb ms)))"
proof -
  obtain cl' wb' es where r: "deliver_all cl wb ms = (cl', wb', es)"
    by (cases "deliver_all cl wb ms") auto
  from deliver_all_no_null [OF r] show ?thesis
    by (simp add: r)
qed

theorem C10_never_null_witness:
  "Invoke (Caller 0) None \<notin> set (snd (snd (deliver_all
      (makeWin32WindowFullyDraggable 1
         \<lparr>width = 800, height = 600, getWindowSize = None, onDragEnd = Caller 0\<rparr>)
      \<lparr>rc_x = 100, rc_y = 100, rc_height = 600, rc_width = 800\<rparr>
      [((), WM_LBUTTONUP, [0, 0, 0, 0, 0, 0, 0, 0], [50, 0, 60, 0, 0, 0, 0, 0]),
       ((), WM_MOUSEMOVE, [1, 0, 0, 0, 0, 0, 0, 0], [50, 0, 60, 0, 0, 0, 0, 0]),
       ((), WM_MOUSEMOVE, [1, 0, 0, 0, 0, 0, 0, 0], [70, 0, 60, 0, 0, 0, 0, 0]),
       ((), WM_LBUTTONUP, [0, 0, 0, 0, 0, 0, 0, 0], [70, 0, 60, 0, 0, 0, 0, 0])])))
   \<and> snd (snd (deliver_all
      (makeWin32WindowFullyDraggable 1
         \<lparr>width = 800, height = 600, getWindowSize = None, onDragEnd = Caller 0\<rparr>)
      \<lparr>rc_x = 100, rc_y = 100, rc_height = 600, rc_width = 800\<rparr>
      [((), WM_LBUTTONUP, [0, 0, 0, 0, 0, 0, 0, 0], [50, 0, 60, 0, 0, 0, 0, 0]),
       ((), WM_MOUSEMOVE, [1, 0, 0, 0, 0, 0, 0, 0], [50, 0, 60, 0, 0, 0, 0, 0]),
       ((), WM_MOUSEMOVE, [1, 0, 0, 0, 0, 0, 0, 0], [70, 0, 60, 0, 0, 0, 0, 0]),
       ((), WM_LBUTTONUP, [0, 0, 0, 0, 0, 0, 0, 0], [70, 0, 60, 0, 0, 0, 0, 0])]))
     = [SetBounds 1 \<lparr>rc_x = 120, rc_y = 100, rc_height = 600, rc_width = 800\<rparr>,
        Invoke (Caller 0) (Some \<lparr>pt_x = 120, pt_y = 100\<rparr>)]"
proof -
  have t: "snd (snd (deliver_all
      (makeWin32WindowFullyDraggable 1
         \<lparr>width = 800, height = 600, getWindowSize = None, onDragEnd = Caller 0\<rparr>)
      \<lparr>rc_x = 100, rc_y = 100, rc_height = 600, rc_width = 800\<rparr>
      [((), WM_LBUTTONUP, [0, 0, 0, 0, 0, 0, 0, 0], [50, 0, 60, 0, 0, 0, 0, 0]),
       ((), WM_MOUSEMOVE, [1, 0, 0, 0, 0, 0, 0, 0], [50, 0, 60, 0, 0, 0, 0, 0]),
       ((), WM_MOUSEMOVE, [1, 0, 0, 0, 0, 0, 0, 0], [70, 0, 60, 0, 0, 0, 0, 0]),
       ((), WM_LBUTTONUP, [0, 0, 0, 0, 0, 0, 0, 0], [70, 0, 60, 0, 0, 0, 0, 0])]))
     = [SetBounds 1 \<lparr>rc_x = 120, rc_y = 100, rc_height = 600, rc_width = 800\<rparr>,
        Invoke (Caller 0) (Some \<lparr>pt_x = 120, pt_y = 100\<rparr>)]"
    by (simp add: win32_eval)
  show ?thesis
    by (intro conjI C10_never_null t)
qed

end
